theory Spec2Isabelle
  imports Main "HOL-Library.Sublist"
begin

section \<open>The connection worker of tactionthread.cpp\<close>

text \<open>
  The worker thread of the framework (class TActionThread) is embedded as a state-passing
  program. Everything the worker calls but does not define (the socket, the application
  dispatcher, the websocket service, the settings, the clock) is a field of an environment
  record or an argument; every call with an effect is appended to a trace of events, so that
  the order of the calls can be stated and proved.
\<close>

subsection \<open>Data\<close>

text \<open>QAbstractSocket::SocketState.\<close>

datatype socket_state =
  UnconnectedState | HostLookupState | ConnectingState | ConnectedState
  | BoundState | ListeningState | ClosingState

text \<open>QAbstractSocket::SocketError is an enumeration of integer codes; the worker compares
  it with one of them only.\<close>

type_synonym socket_error = int

definition RemoteHostClosedError :: socket_error where
  "RemoteHostClosedError = 1"

text \<open>
  Modelled from the spec: Tf::InternalServerError, a constant declared outside this source
  file, is the status of the generic "internal server error" response, the HTTP status 500.
\<close>

definition InternalServerError :: int where
  "InternalServerError = 500"

text \<open>
  A THttpRequest, as far as the worker looks at it: the raw values of two header fields,
  the session cookie, and the rest (opaque, here a number that tells requests apart).
\<close>

record http_request =
  connection_hdr :: string
  upgrade_hdr :: string
  session_cookie :: string
  payload :: nat

text \<open>
  Modelled from the spec: the class THttpResponseHeader is declared outside this source
  file. A response header is the list of its raw header fields, and the default-constructed
  one is the "empty header set".
\<close>

type_synonym response_header = "(string \<times> string) list"

definition THttpResponseHeader :: response_header where
  "THttpResponseHeader = []"

text \<open>
  Modelled from the spec: the class TSession is declared outside this source file. A session
  is its identifier and its content; the default-constructed one is the "empty/new session".
\<close>

datatype session = Session string "(string \<times> string) list"

definition TSession :: session where
  "TSession = Session [] []"

text \<open>
  What a call of TActionContext::execute does, seen from run(): it returns, or it throws.
  run() has two handlers, one for ClientErrorException (which carries a status code) and one
  for std::exception (which carries a message); the faults of the model are these two classes.
\<close>

datatype fault = ClientErrorException int | StdException string

datatype outcome = Returns | Throws fault

datatype log_level = SystemDebug | SystemWarn | SystemError | AppWarn | AppError

datatype log_msg =
  WaitRemaining int
  | FailedSetSocketDescriptor int
  | RequestCount nat
  | UpgradeValue string
  | ErrorOccurred int int
  | KeepAliveTimedOut int
  | CaughtClientError int
  | CaughtException string
  | ReadTimedOut int int
  | InvalidDescriptor socket_state int

text \<open>The calls with an effect, in the order in which they are made.\<close>

datatype event =
  Log log_level log_msg
  | ReadSetting string
  | ThreadCount int
  | Elapsed int
  | Msleep int
  | AppProcessEvents
  | CounterInc
  | CounterDec
  | NewHttpSocket
  | EmitError int
  | TfClose int
  | SetCurrentDatabaseContext bool
  | Execute http_request int
  | WriteResponse int response_header
  | WaitForReadyRead int
  | LoopProcessEvents bool
  | SocketAbort
  | SocketRead nat
  | SocketClose
  | Release
  | DeleteLater
  | DuplicateSocket int
  | NewWebSocket int
  | ConnectDeleteLater
  | MoveToThread
  | FindSession string
  | StartWorkerForOpening session

text \<open>
  The variables of the anonymous namespace, shared by all workers of the process, together
  with the process-wide trace.
\<close>

record globals =
  threadCounter :: int
  keepAliveTimeout :: int
  trace :: "event list"

text \<open>The initial values of the namespace variables: threadCounter(0), keepAliveTimeout = -1.\<close>

definition initial_globals :: globals where
  "initial_globals = \<lparr>threadCounter = 0, keepAliveTimeout = - 1, trace = []\<rparr>"

text \<open>
  A worker: the shared variables as it sees them, its own members (socketDesc of
  TActionContext, _maxThreads, _httpSocket: \<open>None\<close> is the null pointer, \<open>Some d\<close> a socket
  object on descriptor \<open>d\<close>), and the position \<open>tick\<close> in the history of its socket.
\<close>

record wstate = globals +
  socketDesc :: int
  maxThreads :: int
  httpSocket :: "int option"
  tick :: nat

definition log :: "event \<Rightarrow> 'a globals_scheme \<Rightarrow> 'a globals_scheme" where
  "log e s = s\<lparr>trace := trace s @ [e]\<rparr>"

definition logs :: "event list \<Rightarrow> 'a globals_scheme \<Rightarrow> 'a globals_scheme" where
  "logs es s = s\<lparr>trace := trace s @ es\<rparr>"

subsection \<open>threadCount and waitForAllDone\<close>

definition threadCount :: "'a globals_scheme \<Rightarrow> int" where
  "threadCount s = threadCounter s"

text \<open>
  waitForAllDone runs in the thread that shuts the server down, while the workers change the
  counter. The counter is therefore read through \<open>counter_at\<close>, its value as a function of
  the time (in milliseconds) on the QElapsedTimer; \<open>lag t\<close> is the time that an iteration
  begun at \<open>t\<close> takes beyond the five milliseconds of Tf::msleep(5). The loop returns the last
  value of \<open>cnt\<close> and the calls it made.
\<close>

function waitForAllDone_loop ::
  "(int \<Rightarrow> int) \<Rightarrow> (int \<Rightarrow> nat) \<Rightarrow> int \<Rightarrow> int \<Rightarrow> int \<times> event list" where
  "waitForAllDone_loop counter_at lag msec t =
     (let cnt = counter_at t in
      if cnt > 0 then
        (if t > msec then (cnt, [ThreadCount cnt, Elapsed t])
         else
           (let (c, es) = waitForAllDone_loop counter_at lag msec (t + 5 + int (lag t))
            in (c, [ThreadCount cnt, Elapsed t, Msleep 5, AppProcessEvents] @ es)))
      else (cnt, [ThreadCount cnt]))"
  by pat_completeness auto
termination
  by (relation "measure (\<lambda>(counter_at, lag, msec, t). nat (msec + 1 - t))") auto

definition waitForAllDone :: "(int \<Rightarrow> int) \<Rightarrow> (int \<Rightarrow> nat) \<Rightarrow> int \<Rightarrow> bool \<times> event list" where
  "waitForAllDone counter_at lag msec =
     (let (cnt, es) = waitForAllDone_loop counter_at lag msec 0
      in (cnt = 0, es @ [Log SystemDebug (WaitRemaining cnt)]))"

subsection \<open>The constructor\<close>

text \<open>
  TAppSettings::value(key, default): the settings are a map from attribute names to their
  configured strings.
\<close>

definition appSettings_value :: "(string \<rightharpoonup> string) \<Rightarrow> string \<Rightarrow> string \<Rightarrow> string" where
  "appSettings_value settings key dflt = (case settings key of None \<Rightarrow> dflt | Some v \<Rightarrow> v)"

text \<open>
  TActionThread::TActionThread(socket, maxThreads). The conversion \<open>toInt\<close> of the setting
  to an integer belongs to Qt and is an argument. The constructor returns the new worker,
  which carries the shared variables as the constructor leaves them.
\<close>

definition TActionThread :: "(string \<Rightarrow> int) \<Rightarrow> (string \<rightharpoonup> string) \<Rightarrow> int \<Rightarrow> int \<Rightarrow> globals \<Rightarrow> wstate" where
  "TActionThread toInt settings socket maxThr g =
     (let g' =
        (if keepAliveTimeout g < 0 then
           (let timeout = toInt (appSettings_value settings ''HttpKeepAliveTimeout'' ''10'')
            in (log (ReadSetting ''HttpKeepAliveTimeout'') g)\<lparr>keepAliveTimeout := max timeout 0\<rparr>)
         else g)
      in \<lparr>threadCounter = threadCounter g', keepAliveTimeout = keepAliveTimeout g',
          trace = trace g', socketDesc = socket, maxThreads = maxThr, httpSocket = None,
          tick = 0\<rparr>)"

text \<open>The shared variables that a worker leaves to the next one.\<close>

definition shared :: "wstate \<Rightarrow> globals" where
  "shared s = \<lparr>threadCounter = threadCounter s, keepAliveTimeout = keepAliveTimeout s,
               trace = trace s\<rparr>"

text \<open>
  A process constructs workers one after the other; each construction comes with the
  settings as they are at that moment, a descriptor and a bound.
\<close>

fun construct_all :: "(string \<Rightarrow> int) \<Rightarrow> ((string \<rightharpoonup> string) \<times> int \<times> int) list \<Rightarrow> globals \<Rightarrow> globals" where
  "construct_all toInt [] g = g"
| "construct_all toInt ((settings, socket, maxThr) # rest) g =
     construct_all toInt rest (shared (TActionThread toInt settings socket maxThr g))"

text \<open>
  An instance of \<open>toInt\<close> for the examples: an optional sign and decimal digits, a value
  of 32 bits, and 0 for everything else.
\<close>

fun digits_value :: "string \<Rightarrow> nat \<Rightarrow> nat option" where
  "digits_value [] acc = Some acc"
| "digits_value (c # cs) acc =
     (let n = (of_char c :: nat) in
      if 48 \<le> n \<and> n \<le> 57 then digits_value cs (10 * acc + (n - 48)) else None)"

definition decimal_toInt :: "string \<Rightarrow> int" where
  "decimal_toInt str =
     (case str of
        [] \<Rightarrow> 0
      | c # cs \<Rightarrow>
          if c = CHR ''-'' then
            (case (if cs = [] then None else digits_value cs 0) of
               None \<Rightarrow> 0
             | Some n \<Rightarrow> if int n \<le> 2147483648 then - int n else 0)
          else
            (case digits_value (if c = CHR ''+'' \<and> cs \<noteq> [] then cs else c # cs) 0 of
               None \<Rightarrow> 0
             | Some n \<Rightarrow> if int n \<le> 2147483647 then int n else 0))"

subsection \<open>The socket and the other collaborators\<close>

text \<open>
  What the worker can observe of its THttpSocket at one moment: the answers of
  canReadRequest(), idleTime(), state() and error(), whether a waitForReadyRead issued now
  returns true, and the requests that read() returns now.
\<close>

record sockobs =
  canReadRequest :: bool
  idleTime :: int
  sock_state :: socket_state
  sock_error :: socket_error
  readyRead :: bool
  incoming :: "http_request list"

text \<open>
  The collaborators of one worker. The socket is a history of observations: the worker is
  at position \<open>tick\<close> of it, and each waitForReadyRead and each read() moves it to the next
  position; between two of these calls the observations do not change.
\<close>

record env =
  sock_setSocketDescriptor :: "int \<Rightarrow> bool"
  sock_socketId :: int
  sock_history :: "nat \<Rightarrow> sockobs"
  ctx_execute :: "http_request \<Rightarrow> int \<Rightarrow> outcome"
  ws_searchEndpoint :: "http_request \<Rightarrow> bool"
  srv_duplicateSocket :: "int \<Rightarrow> int"
  sm_findSession :: "string \<Rightarrow> session"

text \<open>_httpSocket->socketDescriptor(); the pointer is not null where the worker calls it.\<close>

definition socketDescriptor :: "wstate \<Rightarrow> int" where
  "socketDescriptor s = (case httpSocket s of None \<Rightarrow> - 1 | Some d \<Rightarrow> d)"

text \<open>
  QByteArray::toLower on the ASCII letters, and QByteArray::contains. (Qt 5 also maps the
  capital letters of Latin-1, bytes from 192 on, to bytes from 224 on; neither kind of byte
  occurs in "upgrade" or "websocket", so the two comparisons of run() come out the same.)
\<close>

definition toLower_char :: "char \<Rightarrow> char" where
  "toLower_char c =
     (let n = (of_char c :: nat) in if 65 \<le> n \<and> n \<le> 90 then char_of (n + 32) else c)"

definition toLower :: "string \<Rightarrow> string" where
  "toLower str = map toLower_char str"

fun contains :: "string \<Rightarrow> string \<Rightarrow> bool" where
  "contains [] needle = (needle = [])"
| "contains (c # cs) needle = (prefix needle (c # cs) \<or> contains cs needle)"

subsection \<open>readRequest\<close>

text \<open>
  The polling loop of readRequest. It can run for ever (a connected socket on which nothing
  arrives, with the idle check off), so it takes fuel, one unit for each test of the loop
  condition, and \<open>None\<close> says that the fuel did not suffice.
\<close>

fun readRequest_loop :: "nat \<Rightarrow> env \<Rightarrow> wstate \<Rightarrow> wstate option" where
  "readRequest_loop 0 env s = None"
| "readRequest_loop (Suc n) env s =
     (let ob = sock_history env (tick s) in
      if \<not> canReadRequest ob then
        (if keepAliveTimeout s > 0 \<and> idleTime ob \<ge> keepAliveTimeout s then
           Some (log (Log SystemWarn (ReadTimedOut (keepAliveTimeout s) (socketDescriptor s))) s)
         else if sock_state ob \<noteq> ConnectedState then
           Some (log (Log SystemWarn (InvalidDescriptor (sock_state ob) (socketDescriptor s))) s)
         else readRequest_loop n env ((log (WaitForReadyRead 200) s)\<lparr>tick := Suc (tick s)\<rparr>))
      else Some s)"

definition readRequest :: "nat \<Rightarrow> env \<Rightarrow> wstate \<Rightarrow> (http_request list \<times> wstate) option" where
  "readRequest n env s =
     (case readRequest_loop n env s of
        None \<Rightarrow> None
      | Some s1 \<Rightarrow>
          (let ob = sock_history env (tick s1) in
           if \<not> canReadRequest ob then Some ([], log SocketAbort s1)
           else Some (incoming ob,
                      (log (SocketRead (length (incoming ob))) s1)\<lparr>tick := Suc (tick s1)\<rparr>)))"

subsection \<open>handshakeForWebSocket\<close>

definition handshakeForWebSocket :: "env \<Rightarrow> http_request \<Rightarrow> wstate \<Rightarrow> bool \<times> wstate" where
  "handshakeForWebSocket env header s =
     (if \<not> ws_searchEndpoint env header then (False, s)
      else
        (let sd = srv_duplicateSocket env (socketDescriptor s);
             s1 = logs [DuplicateSocket (socketDescriptor s), NewWebSocket sd,
                        ConnectDeleteLater, MoveToThread] s;
             sessionId = session_cookie header;
             (session, s2) =
               (if sessionId \<noteq> [] then (sm_findSession env sessionId, log (FindSession sessionId) s1)
                else (TSession, s1))
         in (True, log (StartWorkerForOpening session) s2)))"

subsection \<open>run\<close>

text \<open>
  The class Counter local to run(): its constructor and its destructor. The counter is an
  integer without bounds here, and the std::atomic<int> of the program wraps around; the
  two agree as long as the count of workers stays inside the range of int, and a statement
  that depends on the value after the increment assumes so.
\<close>

definition Counter_ctor :: "'a globals_scheme \<Rightarrow> 'a globals_scheme" where
  "Counter_ctor s = log CounterInc (s\<lparr>threadCounter := threadCounter s + 1\<rparr>)"

definition Counter_dtor :: "'a globals_scheme \<Rightarrow> 'a globals_scheme" where
  "Counter_dtor s = log CounterDec (s\<lparr>threadCounter := threadCounter s - 1\<rparr>)"

text \<open>
  The loop over the requests of a batch. A call of execute that throws ends the loop; the
  fault comes back with the state in which it was thrown.
\<close>

fun execute_all :: "env \<Rightarrow> http_request list \<Rightarrow> wstate \<Rightarrow> (fault \<times> wstate) + wstate" where
  "execute_all env [] s = Inr s"
| "execute_all env (req # reqs) s =
     (let s1 = log (Execute req (sock_socketId env)) s in
      case ctx_execute env req (sock_socketId env) of
        Returns \<Rightarrow> execute_all env reqs s1
      | Throws f \<Rightarrow> Inl (f, s1))"

text \<open>
  The loop that waits for the next request of a kept-alive connection. The result is \<open>True\<close>
  when the loop is left by goto receive_end, and \<open>False\<close> when waitForReadyRead returned true.
  The inner loop that calls processEvents until it returns false is one event.
\<close>

fun keepAliveWait :: "nat \<Rightarrow> env \<Rightarrow> wstate \<Rightarrow> (bool \<times> wstate) option" where
  "keepAliveWait 0 env s = None"
| "keepAliveWait (Suc n) env s =
     (let ready = readyRead (sock_history env (tick s));
          s1 = (log (WaitForReadyRead 5) s)\<lparr>tick := Suc (tick s)\<rparr>;
          ob = sock_history env (tick s1)
      in
        if \<not> ready then
          (if sock_state ob \<noteq> ConnectedState then
             Some (True,
                   if sock_error ob \<noteq> RemoteHostClosedError
                   then log (Log SystemWarn (ErrorOccurred (sock_error ob) (sock_socketId env))) s1
                   else s1)
           else if idleTime ob \<ge> keepAliveTimeout s1 then
             Some (True, log (Log SystemDebug (KeepAliveTimedOut (sock_socketId env))) s1)
           else keepAliveWait n env (log (LoopProcessEvents True) s1))
        else Some (False, s1))"

text \<open>The ways in which control leaves the try block.\<close>

datatype leave = Break | GotoReceiveEnd | GotoSocketCleanup | GotoSocketError | Thrown fault

text \<open>The for (;;) loop inside the try block; one unit of fuel for each batch.\<close>

fun try_loop :: "nat \<Rightarrow> env \<Rightarrow> wstate \<Rightarrow> (leave \<times> wstate) option" where
  "try_loop 0 env s = None"
| "try_loop (Suc n) env s =
     (case readRequest n env s of
        None \<Rightarrow> None
      | Some (reqs, s1) \<Rightarrow>
          (let s2 = log (Log SystemDebug (RequestCount (length reqs))) s1 in
           case reqs of
             [] \<Rightarrow> Some (Break, s2)
           | req0 # _ \<Rightarrow>
               (let connectionHeader = toLower (connection_hdr req0) in
                if contains connectionHeader ''upgrade'' then
                  (let upgradeHeader = toLower (upgrade_hdr req0);
                       s3 = log (Log SystemDebug (UpgradeValue upgradeHeader)) s2
                   in
                     if upgradeHeader = ''websocket'' then
                       (case handshakeForWebSocket env req0 s3 of
                          (ok, s4) \<Rightarrow>
                            if \<not> ok then Some (GotoSocketError, s4)
                            else Some (GotoSocketCleanup, s4))
                     else Some (GotoSocketCleanup, s3))
                else
                  (case execute_all env reqs s2 of
                     Inl (f, s3) \<Rightarrow> Some (Thrown f, s3)
                   | Inr s3 \<Rightarrow>
                       if keepAliveTimeout s3 = 0 then Some (Break, s3)
                       else if threadCount s3 \<ge> maxThreads s3 \<and> maxThreads s3 > 0 then
                         Some (Break, s3)
                       else
                         (case keepAliveWait n env s3 of
                            None \<Rightarrow> None
                          | Some (True, s4) \<Rightarrow> Some (GotoReceiveEnd, s4)
                          | Some (False, s4) \<Rightarrow> try_loop n env s4)))))"

text \<open>The three labels at the end of run(), each falling through to the next.\<close>

definition closeHttpSocket :: "wstate \<Rightarrow> wstate" where
  "closeHttpSocket s = log SocketClose s"

definition socket_error :: "wstate \<Rightarrow> wstate" where
  "socket_error s =
     (logs [Release, SetCurrentDatabaseContext False, DeleteLater] (s\<lparr>socketDesc := 0\<rparr>))
       \<lparr>httpSocket := None\<rparr>"

definition socket_cleanup :: "wstate \<Rightarrow> wstate" where
  "socket_cleanup s = socket_error (log (LoopProcessEvents False) s)"

definition receive_end :: "wstate \<Rightarrow> wstate" where
  "receive_end s = socket_cleanup (closeHttpSocket s)"

text \<open>What follows the try block: the two handlers, then the labels.\<close>

fun after_try :: "leave \<Rightarrow> wstate \<Rightarrow> wstate" where
  "after_try Break s = receive_end s"
| "after_try GotoReceiveEnd s = receive_end s"
| "after_try GotoSocketCleanup s = socket_cleanup s"
| "after_try GotoSocketError s = socket_error s"
| "after_try (Thrown (ClientErrorException code)) s =
     receive_end
       (logs [Log AppWarn (CaughtClientError code), Log SystemWarn (CaughtClientError code),
              WriteResponse code THttpResponseHeader] s)"
| "after_try (Thrown (StdException what)) s =
     receive_end
       (logs [Log AppError (CaughtException what), Log SystemError (CaughtException what),
              WriteResponse InternalServerError THttpResponseHeader] s)"

text \<open>
  run() up to the call of setSocketDescriptor, and its two continuations: the failure branch
  up to its goto, and the two statements in front of the try block.
\<close>

definition run_start :: "wstate \<Rightarrow> wstate" where
  "run_start s0 = (log NewHttpSocket (Counter_ctor s0))\<lparr>httpSocket := Some (- 1)\<rparr>"

definition run_failed :: "env \<Rightarrow> wstate \<Rightarrow> wstate" where
  "run_failed env s =
     logs [Log SystemError (FailedSetSocketDescriptor (socketDesc s)),
           EmitError (sock_error (sock_history env (tick s))),
           TfClose (socketDesc s)] s"

definition run_acquired :: "wstate \<Rightarrow> wstate" where
  "run_acquired s =
     log (SetCurrentDatabaseContext True) (s\<lparr>httpSocket := Some (socketDesc s), socketDesc := 0\<rparr>)"

text \<open>
  run(). The destructor of the local Counter runs when the function is left, after the
  statements of the last label.
\<close>

definition run :: "nat \<Rightarrow> env \<Rightarrow> wstate \<Rightarrow> wstate option" where
  "run fuel env s0 =
     (let s = run_start s0 in
      if \<not> sock_setSocketDescriptor env (socketDesc s) then
        Some (Counter_dtor (socket_error (run_failed env s)))
      else
        (case try_loop fuel env (run_acquired s) of
           None \<Rightarrow> None
         | Some (l, s') \<Rightarrow> Some (Counter_dtor (after_try l s'))))"

subsection \<open>Several workers\<close>

text \<open>
  The only statements of the program that write threadCounter are the constructor and the
  destructor of Counter, both atomic. A pool of workers is the counter together with the
  phase of each worker; a worker enters its run() once and leaves it once.
\<close>

datatype phase = NotStarted | InRun | Exited

inductive pool :: "globals \<Rightarrow> (nat \<Rightarrow> phase) \<Rightarrow> bool" where
  pool_init: "pool initial_globals (\<lambda>w. NotStarted)"
| pool_enter: "pool g ph \<Longrightarrow> ph w = NotStarted \<Longrightarrow> pool (Counter_ctor g) (ph(w := InRun))"
| pool_leave: "pool g ph \<Longrightarrow> ph w = InRun \<Longrightarrow> pool (Counter_dtor g) (ph(w := Exited))"

subsection \<open>Predicates on events and examples\<close>

definition is_counter :: "event \<Rightarrow> bool" where
  "is_counter e = (e = CounterInc \<or> e = CounterDec)"

definition is_execute :: "event \<Rightarrow> bool" where
  "is_execute e = (case e of Execute req sid \<Rightarrow> True | _ \<Rightarrow> False)"

definition is_read :: "event \<Rightarrow> bool" where
  "is_read e = (case e of SocketRead n \<Rightarrow> True | _ \<Rightarrow> False)"

text \<open>An event that is neither a write of the counter nor a wait of the keep-alive loop.\<close>

definition quiet :: "event \<Rightarrow> bool" where
  "quiet e = (e \<noteq> CounterInc \<and> e \<noteq> CounterDec \<and> e \<noteq> WaitForReadyRead 5)"

text \<open>The events of one round of waitForAllDone that goes on to sleep.\<close>

definition poll_round :: "int \<times> int \<Rightarrow> event list" where
  "poll_round r = [ThreadCount (fst r), Elapsed (snd r), Msleep 5, AppProcessEvents]"

text \<open>
  The time on the timer at the polls of waitForAllDone, counted from a first poll at \<open>t\<close>:
  each round takes its sleep of five milliseconds and its lag.
\<close>

fun poll_time :: "(int \<Rightarrow> nat) \<Rightarrow> int \<Rightarrow> nat \<Rightarrow> int" where
  "poll_time lag t 0 = t"
| "poll_time lag t (Suc k) = poll_time lag (t + 5 + int (lag t)) k"

text \<open>The responses that the two handlers of run() write.\<close>

definition handler_events :: "fault \<Rightarrow> event list" where
  "handler_events f =
     (case f of
        ClientErrorException code \<Rightarrow>
          [Log AppWarn (CaughtClientError code), Log SystemWarn (CaughtClientError code),
           WriteResponse code []]
      | StdException what \<Rightarrow>
          [Log AppError (CaughtException what), Log SystemError (CaughtException what),
           WriteResponse 500 []])"

text \<open>
  Examples: a socket that delivers one batch and is then closed by the peer, a dispatcher
  that fails on chosen requests, and a worker constructed in a fresh process.
\<close>

definition request :: "string \<Rightarrow> string \<Rightarrow> nat \<Rightarrow> http_request" where
  "request c u n = \<lparr>connection_hdr = c, upgrade_hdr = u, session_cookie = [], payload = n\<rparr>"

definition one_batch :: "http_request list \<Rightarrow> nat \<Rightarrow> sockobs" where
  "one_batch reqs t =
     (if t = 0 then
        \<lparr>canReadRequest = True, idleTime = 0, sock_state = ConnectedState, sock_error = 0,
         readyRead = True, incoming = reqs\<rparr>
      else
        \<lparr>canReadRequest = False, idleTime = 0, sock_state = UnconnectedState, sock_error = 1,
         readyRead = False, incoming = []\<rparr>)"

definition one_batch_env :: "http_request list \<Rightarrow> (nat \<Rightarrow> outcome) \<Rightarrow> bool \<Rightarrow> env" where
  "one_batch_env reqs app endpoint =
     \<lparr>sock_setSocketDescriptor = (\<lambda>d. 0 < d), sock_socketId = 7,
      sock_history = one_batch reqs,
      ctx_execute = (\<lambda>req sid. app (payload req)),
      ws_searchEndpoint = (\<lambda>req. endpoint),
      srv_duplicateSocket = (\<lambda>d. d + 100),
      sm_findSession = (\<lambda>sid. Session sid [])\<rparr>"

definition fresh_worker :: "string option \<Rightarrow> int \<Rightarrow> int \<Rightarrow> wstate" where
  "fresh_worker setting socket maxThr =
     TActionThread decimal_toInt
       (case setting of None \<Rightarrow> Map.empty | Some v \<Rightarrow> [''HttpKeepAliveTimeout'' \<mapsto> v])
       socket maxThr initial_globals"

text \<open>Example dispatchers: one that fails on the request with a given payload, one that never fails.\<close>

definition fails_on :: "nat \<Rightarrow> fault \<Rightarrow> nat \<Rightarrow> outcome" where
  "fails_on k f n = (if n = k then Throws f else Returns)"

definition always_returns :: "nat \<Rightarrow> outcome" where
  "always_returns n = Returns"

text \<open>Example batch: three requests, none of them an upgrade request.\<close>

definition plain_batch :: "http_request list" where
  "plain_batch = [request ''keep-alive'' [] 1, request [] [] 2, request [] [] 3]"

text \<open>
  Example socket on a kept-alive connection: a first batch, then the next data arrive
  while the worker waits, a second batch, and then the peer closes.
\<close>

definition two_batches :: "http_request list \<Rightarrow> http_request list \<Rightarrow> nat \<Rightarrow> sockobs" where
  "two_batches first second t =
     (if t = 0 then
        \<lparr>canReadRequest = True, idleTime = 0, sock_state = ConnectedState, sock_error = 0,
         readyRead = True, incoming = first\<rparr>
      else if t = 1 then
        \<lparr>canReadRequest = False, idleTime = 0, sock_state = ConnectedState, sock_error = 0,
         readyRead = True, incoming = []\<rparr>
      else if t = 2 then
        \<lparr>canReadRequest = True, idleTime = 0, sock_state = ConnectedState, sock_error = 0,
         readyRead = True, incoming = second\<rparr>
      else
        \<lparr>canReadRequest = False, idleTime = 0, sock_state = UnconnectedState, sock_error = 1,
         readyRead = False, incoming = []\<rparr>)"

definition two_batches_env :: "http_request list \<Rightarrow> http_request list \<Rightarrow> (nat \<Rightarrow> outcome) \<Rightarrow> env" where
  "two_batches_env first second app =
     \<lparr>sock_setSocketDescriptor = (\<lambda>d. 0 < d), sock_socketId = 7,
      sock_history = two_batches first second,
      ctx_execute = (\<lambda>req sid. app (payload req)),
      ws_searchEndpoint = (\<lambda>req. False),
      srv_duplicateSocket = (\<lambda>d. d + 100),
      sm_findSession = (\<lambda>sid. Session sid [])\<rparr>"

text \<open>
  Example sockets on which no request arrives: one that has been idle for an hour and
  stays connected up to a given moment, and one that stays connected for ever.
\<close>

definition idle_until :: "nat \<Rightarrow> nat \<Rightarrow> sockobs" where
  "idle_until d t =
     \<lparr>canReadRequest = False, idleTime = 3600,
      sock_state = (if t < d then ConnectedState else UnconnectedState),
      sock_error = (if t < d then 0 else 1), readyRead = False, incoming = []\<rparr>"

definition idle_for_ever :: "nat \<Rightarrow> sockobs" where
  "idle_for_ever t =
     \<lparr>canReadRequest = False, idleTime = 3600, sock_state = ConnectedState, sock_error = 0,
      readyRead = False, incoming = []\<rparr>"

definition silent_env :: "(nat \<Rightarrow> sockobs) \<Rightarrow> env" where
  "silent_env history =
     \<lparr>sock_setSocketDescriptor = (\<lambda>d. 0 < d), sock_socketId = 7,
      sock_history = history,
      ctx_execute = (\<lambda>req sid. Returns),
      ws_searchEndpoint = (\<lambda>req. False),
      srv_duplicateSocket = (\<lambda>d. d + 100),
      sm_findSession = (\<lambda>sid. Session sid [])\<rparr>"

text \<open>Example pool: worker 0 is inside run(), no other worker has started.\<close>

definition only_first_running :: "nat \<Rightarrow> phase" where
  "only_first_running = (\<lambda>w. NotStarted)(0 := InRun)"

text \<open>
  Examples for waitForAllDone: a counter that stays at \<open>c\<close> until time \<open>d\<close> and is 0 from
  then on, and iterations that take one millisecond more than their sleep.
\<close>

definition drained_at :: "int \<Rightarrow> int \<Rightarrow> int \<Rightarrow> int" where
  "drained_at d c t = (if t < d then c else 0)"

definition one_ms :: "int \<Rightarrow> nat" where
  "one_ms t = 1"

text \<open>
  The events that a worker has appended between two of its states, and the relation
  "the second state comes from the first by appending events that satisfy \<open>P\<close>, with the
  shared variables and the bound unchanged".
\<close>

definition since :: "wstate \<Rightarrow> wstate \<Rightarrow> event list" where
  "since s s' = drop (length (trace s)) (trace s')"

definition adds :: "(event \<Rightarrow> bool) \<Rightarrow> wstate \<Rightarrow> wstate \<Rightarrow> bool" where
  "adds P s s' =
     (trace s' = trace s @ since s s' \<and> list_all P (since s s')
      \<and> threadCounter s' = threadCounter s \<and> keepAliveTimeout s' = keepAliveTimeout s
      \<and> maxThreads s' = maxThreads s)"

section \<open>Properties\<close>

declare waitForAllDone_loop.simps [simp del]

subsection \<open>waitForAllDone\<close>

lemma waitForAllDone_loop_polls:
  "\<exists>n. waitForAllDone_loop counter_at lag msec t =
         (counter_at (poll_time lag t n),
          concat (map (\<lambda>k. poll_round (counter_at (poll_time lag t k), poll_time lag t k)) [0..<n])
            @ ThreadCount (counter_at (poll_time lag t n))
            # (if 0 < counter_at (poll_time lag t n) then [Elapsed (poll_time lag t n)] else []))
     \<and> (\<forall>k<n. 0 < counter_at (poll_time lag t k) \<and> poll_time lag t k \<le> msec)
     \<and> (counter_at (poll_time lag t n) \<le> 0 \<or> msec < poll_time lag t n)
     \<and> (counter_at t \<le> 0 \<longrightarrow> n = 0)"
proof (induction counter_at lag msec t rule: waitForAllDone_loop.induct)
  case (1 counter_at lag msec t)
  show ?case
  proof (cases "0 < counter_at t \<and> t \<le> msec")
    case False
    then have "waitForAllDone_loop counter_at lag msec t =
        (counter_at t, ThreadCount (counter_at t) # (if 0 < counter_at t then [Elapsed t] else []))"
      by (auto simp: waitForAllDone_loop.simps [of counter_at lag msec t] Let_def)
    with False show ?thesis by (intro exI [of _ 0]) auto
  next
    case True
    let ?t = "t + 5 + int (lag t)"
    from True have pos: "0 < counter_at t" and le: "\<not> msec < t" by auto
    from "1.IH" [OF refl pos le] obtain n where
      rec: "waitForAllDone_loop counter_at lag msec ?t =
         (counter_at (poll_time lag ?t n),
          concat (map (\<lambda>k. poll_round (counter_at (poll_time lag ?t k), poll_time lag ?t k)) [0..<n])
            @ ThreadCount (counter_at (poll_time lag ?t n))
            # (if 0 < counter_at (poll_time lag ?t n) then [Elapsed (poll_time lag ?t n)] else []))"
      and all: "\<forall>k<n. 0 < counter_at (poll_time lag ?t k) \<and> poll_time lag ?t k \<le> msec"
      and stop: "counter_at (poll_time lag ?t n) \<le> 0 \<or> msec < poll_time lag ?t n"
      by blast
    have eq: "waitForAllDone_loop counter_at lag msec t =
         (counter_at (poll_time lag t (Suc n)),
          concat (map (\<lambda>k. poll_round (counter_at (poll_time lag t k), poll_time lag t k)) [0..<Suc n])
            @ ThreadCount (counter_at (poll_time lag t (Suc n)))
            # (if 0 < counter_at (poll_time lag t (Suc n)) then [Elapsed (poll_time lag t (Suc n))] else []))"
      using pos le rec
      by (simp add: waitForAllDone_loop.simps [of counter_at lag msec t] Let_def map_upt_Suc
          poll_round_def del: upt_Suc)
    have all': "\<forall>k<Suc n. 0 < counter_at (poll_time lag t k) \<and> poll_time lag t k \<le> msec"
    proof (intro allI impI)
      fix k assume "k < Suc n"
      then show "0 < counter_at (poll_time lag t k) \<and> poll_time lag t k \<le> msec"
        using all True by (cases k) auto
    qed
    from stop have stop': "counter_at (poll_time lag t (Suc n)) \<le> 0 \<or> msec < poll_time lag t (Suc n)"
      by simp
    from eq all' stop' pos show ?thesis by (intro exI [of _ "Suc n"]) simp
  qed
qed

text \<open>
  C9. waitForAllDone(msec) polls the worker count at the times \<open>poll_time lag 0 k\<close>. There
  is a number \<open>n\<close> of rounds: at each of the polls 0..n-1 the count read is positive and the
  timer is not beyond \<open>msec\<close>, and the poll is followed by the sleep of five milliseconds and
  processEvents; at poll \<open>n\<close> the count read is not positive, or it is positive and the timer
  is beyond \<open>msec\<close>. The function returns whether the count read at poll \<open>n\<close> is zero, so it
  returns true exactly when the polling ended on a count of zero. When the count is zero
  (not positive) at the first poll there is no round: the function returns at once, without
  sleeping.
\<close>

theorem waitForAllDone_polls:
  "\<exists>n. waitForAllDone counter_at lag msec =
         (counter_at (poll_time lag 0 n) = 0,
          concat (map (\<lambda>k. poll_round (counter_at (poll_time lag 0 k), poll_time lag 0 k)) [0..<n])
            @ ThreadCount (counter_at (poll_time lag 0 n))
            # (if 0 < counter_at (poll_time lag 0 n) then [Elapsed (poll_time lag 0 n)] else [])
            @ [Log SystemDebug (WaitRemaining (counter_at (poll_time lag 0 n)))])
     \<and> (\<forall>k<n. 0 < counter_at (poll_time lag 0 k) \<and> poll_time lag 0 k \<le> msec)
     \<and> (counter_at (poll_time lag 0 n) \<le> 0 \<or> msec < poll_time lag 0 n)
     \<and> (counter_at 0 \<le> 0 \<longrightarrow> n = 0)"
proof -
  from waitForAllDone_loop_polls [of counter_at lag msec 0] obtain n where
    l: "waitForAllDone_loop counter_at lag msec 0 =
         (counter_at (poll_time lag 0 n),
          concat (map (\<lambda>k. poll_round (counter_at (poll_time lag 0 k), poll_time lag 0 k)) [0..<n])
            @ ThreadCount (counter_at (poll_time lag 0 n))
            # (if 0 < counter_at (poll_time lag 0 n) then [Elapsed (poll_time lag 0 n)] else []))"
    and rest: "\<forall>k<n. 0 < counter_at (poll_time lag 0 k) \<and> poll_time lag 0 k \<le> msec"
      "counter_at (poll_time lag 0 n) \<le> 0 \<or> msec < poll_time lag 0 n"
      "counter_at 0 \<le> 0 \<longrightarrow> n = 0"
    by blast
  have "waitForAllDone counter_at lag msec =
         (counter_at (poll_time lag 0 n) = 0,
          concat (map (\<lambda>k. poll_round (counter_at (poll_time lag 0 k), poll_time lag 0 k)) [0..<n])
            @ ThreadCount (counter_at (poll_time lag 0 n))
            # (if 0 < counter_at (poll_time lag 0 n) then [Elapsed (poll_time lag 0 n)] else [])
            @ [Log SystemDebug (WaitRemaining (counter_at (poll_time lag 0 n)))])"
    unfolding waitForAllDone_def l by simp
  with rest show ?thesis by blast
qed

theorem waitForAllDone_polls_witness:
  "drained_at 0 2 0 \<le> 0
   \<and> waitForAllDone (drained_at 0 2) one_ms 100 =
       (True, [ThreadCount 0, Log SystemDebug (WaitRemaining 0)])
   \<and> poll_time one_ms 0 2 = 12 \<and> drained_at 12 2 (poll_time one_ms 0 2) = 0
   \<and> 0 < drained_at 12 2 (poll_time one_ms 0 0) \<and> poll_time one_ms 0 0 \<le> 100
   \<and> 0 < drained_at 12 2 (poll_time one_ms 0 1) \<and> poll_time one_ms 0 1 \<le> 100
   \<and> waitForAllDone (drained_at 12 2) one_ms 100 =
       (True, poll_round (2, 0) @ poll_round (2, 6) @
              [ThreadCount 0, Log SystemDebug (WaitRemaining 0)])
   \<and> drained_at 50 3 (poll_time one_ms 0 2) = 3 \<and> 10 < poll_time one_ms 0 2
   \<and> waitForAllDone (drained_at 50 3) one_ms 10 =
       (False, poll_round (3, 0) @ poll_round (3, 6) @
               [ThreadCount 3, Elapsed 12, Log SystemDebug (WaitRemaining 3)])"
proof -
  have a: "waitForAllDone (drained_at 0 2) one_ms 100 =
       (True, [ThreadCount 0, Log SystemDebug (WaitRemaining 0)])"
    by (simp add: waitForAllDone_def waitForAllDone_loop.simps drained_at_def one_ms_def)
  have b: "waitForAllDone (drained_at 12 2) one_ms 100 =
       (True, poll_round (2, 0) @ poll_round (2, 6) @
              [ThreadCount 0, Log SystemDebug (WaitRemaining 0)])"
    by (simp add: waitForAllDone_def waitForAllDone_loop.simps drained_at_def one_ms_def
        poll_round_def)
  have c: "waitForAllDone (drained_at 50 3) one_ms 10 =
       (False, poll_round (3, 0) @ poll_round (3, 6) @
               [ThreadCount 3, Elapsed 12, Log SystemDebug (WaitRemaining 3)])"
    by (simp add: waitForAllDone_def waitForAllDone_loop.simps drained_at_def one_ms_def
        poll_round_def)
  have d: "drained_at 0 2 0 \<le> 0" by (simp add: drained_at_def)
  have p: "poll_time one_ms 0 0 = 0" "poll_time one_ms 0 1 = 6" "poll_time one_ms 0 2 = 12"
    by (simp_all add: one_ms_def eval_nat_numeral)
  have v: "drained_at 12 2 12 = 0" "0 < drained_at 12 2 0" "0 < drained_at 12 2 6"
    "drained_at 50 3 12 = 3"
    by (simp_all add: drained_at_def)
  have e: "\<exists>n. waitForAllDone (drained_at 12 2) one_ms 100 =
         (drained_at 12 2 (poll_time one_ms 0 n) = 0,
          concat (map (\<lambda>k. poll_round (drained_at 12 2 (poll_time one_ms 0 k), poll_time one_ms 0 k)) [0..<n])
            @ ThreadCount (drained_at 12 2 (poll_time one_ms 0 n))
            # (if 0 < drained_at 12 2 (poll_time one_ms 0 n) then [Elapsed (poll_time one_ms 0 n)] else [])
            @ [Log SystemDebug (WaitRemaining (drained_at 12 2 (poll_time one_ms 0 n)))])"
    using waitForAllDone_polls [of "drained_at 12 2" one_ms 100] by blast
  from a b c d p v e show ?thesis by simp
qed

subsection \<open>The constructor and the keep-alive timeout\<close>

lemma TActionThread_cached:
  "0 \<le> keepAliveTimeout g \<Longrightarrow> shared (TActionThread toInt settings socket maxThr g) = g"
  by (simp add: TActionThread_def shared_def)

lemma construct_all_cached:
  "0 \<le> keepAliveTimeout g \<Longrightarrow> construct_all toInt cs g = g"
  by (induction cs arbitrary: g) (auto simp: TActionThread_cached)

lemma decimal_toInt_examples:
  "decimal_toInt ''10'' = 10" "decimal_toInt ''-5'' = 0 - 5" "decimal_toInt ''30'' = 30"
  "decimal_toInt ''0'' = 0"
  by (simp_all add: decimal_toInt_def)

text \<open>
  C8. The first construction of a worker in a process (the shared variables have their
  initial values) reads the setting once, with the default string "10", and stores its
  integer value, or 0 when that is negative; the stored value is not negative. Every later
  construction, whatever the settings are by then, leaves the shared variables as they are,
  the trace included (no second read), and the new worker sees the stored value.
\<close>

theorem keepAliveTimeout_resolved_once:
  assumes "g1 = shared (TActionThread toInt settings socket maxThr initial_globals)"
  shows "keepAliveTimeout g1 = max (toInt (appSettings_value settings ''HttpKeepAliveTimeout'' ''10'')) 0
    \<and> (settings ''HttpKeepAliveTimeout'' = None \<and> toInt ''10'' = 10 \<longrightarrow> keepAliveTimeout g1 = 10)
    \<and> 0 \<le> keepAliveTimeout g1
    \<and> trace g1 = [ReadSetting ''HttpKeepAliveTimeout'']
    \<and> shared (TActionThread toInt' settings' socket' maxThr' g1) = g1
    \<and> keepAliveTimeout (TActionThread toInt' settings' socket' maxThr' g1) = keepAliveTimeout g1
    \<and> construct_all toInt' rest g1 = g1"
proof -
  have k: "keepAliveTimeout g1 = max (toInt (appSettings_value settings ''HttpKeepAliveTimeout'' ''10'')) 0"
    using assms by (simp add: TActionThread_def shared_def initial_globals_def log_def)
  then have nn: "0 \<le> keepAliveTimeout g1" by simp
  have d: "settings ''HttpKeepAliveTimeout'' = None \<and> toInt ''10'' = 10 \<longrightarrow> keepAliveTimeout g1 = 10"
    using k by (simp add: appSettings_value_def)
  have t: "trace g1 = [ReadSetting ''HttpKeepAliveTimeout'']"
    using assms by (simp add: TActionThread_def shared_def initial_globals_def log_def)
  have s: "shared (TActionThread toInt' settings' socket' maxThr' g1) = g1"
    using nn by (rule TActionThread_cached)
  have w: "keepAliveTimeout (TActionThread toInt' settings' socket' maxThr' g1) = keepAliveTimeout g1"
    using nn by (simp add: TActionThread_def)
  have c: "construct_all toInt' rest g1 = g1"
    using nn by (rule construct_all_cached)
  from k d nn t s w c show ?thesis by blast
qed

theorem keepAliveTimeout_resolved_once_witness:
  "Map.empty ''HttpKeepAliveTimeout'' = (None :: string option) \<and> decimal_toInt ''10'' = 10
   \<and> shared (fresh_worker None 12 0) =
       \<lparr>threadCounter = 0, keepAliveTimeout = 10, trace = [ReadSetting ''HttpKeepAliveTimeout'']\<rparr>
   \<and> shared (fresh_worker (Some ''-5'') 12 0) =
       \<lparr>threadCounter = 0, keepAliveTimeout = 0, trace = [ReadSetting ''HttpKeepAliveTimeout'']\<rparr>
   \<and> construct_all decimal_toInt
        [([''HttpKeepAliveTimeout'' \<mapsto> ''30''], 13, 0), (Map.empty, 14, 0)]
        (shared (fresh_worker None 12 0)) = shared (fresh_worker None 12 0)"
proof -
  have a: "shared (fresh_worker None 12 0) =
       \<lparr>threadCounter = 0, keepAliveTimeout = 10, trace = [ReadSetting ''HttpKeepAliveTimeout'']\<rparr>"
    by (simp add: fresh_worker_def TActionThread_def shared_def initial_globals_def log_def
        appSettings_value_def decimal_toInt_examples)
  have b: "shared (fresh_worker (Some ''-5'') 12 0) =
       \<lparr>threadCounter = 0, keepAliveTimeout = 0, trace = [ReadSetting ''HttpKeepAliveTimeout'']\<rparr>"
    by (simp add: fresh_worker_def TActionThread_def shared_def initial_globals_def log_def
        appSettings_value_def decimal_toInt_examples)
  have c: "shared (fresh_worker None 12 0) =
     shared (TActionThread decimal_toInt Map.empty 12 0 initial_globals)"
    by (simp add: fresh_worker_def)
  show ?thesis
    using keepAliveTimeout_resolved_once [OF c, of decimal_toInt Map.empty 13 0
        "[([''HttpKeepAliveTimeout'' \<mapsto> ''30''], 13, 0), (Map.empty, 14, 0)]"] a b
    by (simp add: decimal_toInt_examples)
qed

subsection \<open>What each part of run() appends\<close>

lemma adds_iff:
  "adds P s s' \<longleftrightarrow>
     (\<exists>es. trace s' = trace s @ es \<and> list_all P es)
     \<and> threadCounter s' = threadCounter s \<and> keepAliveTimeout s' = keepAliveTimeout s
     \<and> maxThreads s' = maxThreads s"
  by (auto simp: adds_def since_def)

lemma adds_refl: "adds P s s"
  by (simp add: adds_iff)

lemma adds_trans: "adds P s s' \<Longrightarrow> adds P s' s'' \<Longrightarrow> adds P s s''"
  by (auto simp: adds_iff)

lemma adds_log: "P e \<Longrightarrow> adds P s (log e s)"
  by (simp add: adds_iff log_def)

lemma adds_tick: "adds P s (s'\<lparr>tick := t\<rparr>) = adds P s s'"
  by (simp add: adds_iff)

lemma readRequest_loop_adds:
  assumes "\<And>m. P (Log SystemWarn m)" and "P (WaitForReadyRead 200)"
  shows "readRequest_loop n env s = Some s' \<Longrightarrow> adds P s s'"
proof (induction n arbitrary: s)
  case 0
  then show ?case by simp
next
  case (Suc n)
  let ?ob = "sock_history env (tick s)"
  let ?next = "(log (WaitForReadyRead 200) s)\<lparr>tick := Suc (tick s)\<rparr>"
  show ?case
  proof (cases "\<not> canReadRequest ?ob \<and> \<not> (keepAliveTimeout s > 0 \<and> idleTime ?ob \<ge> keepAliveTimeout s)
                  \<and> sock_state ?ob = ConnectedState")
    case True
    with Suc.prems have "readRequest_loop n env ?next = Some s'" by (simp add: Let_def)
    then have "adds P ?next s'" by (rule Suc.IH)
    moreover have "adds P s ?next" by (simp add: adds_tick adds_log assms)
    ultimately show ?thesis by (rule adds_trans [rotated])
  next
    case False
    with Suc.prems show ?thesis
      by (auto simp: Let_def adds_log adds_refl assms split: if_splits)
  qed
qed

lemma readRequest_adds:
  assumes "\<And>m. P (Log SystemWarn m)" and "P (WaitForReadyRead 200)"
    and "P SocketAbort" and "\<And>k. P (SocketRead k)"
  shows "readRequest n env s = Some (reqs, s') \<Longrightarrow> adds P s s'"
proof -
  assume r: "readRequest n env s = Some (reqs, s')"
  then obtain s1 where l: "readRequest_loop n env s = Some s1"
    by (auto simp: readRequest_def split: option.splits)
  then have a: "adds P s s1" by (rule readRequest_loop_adds [OF assms(1,2)])
  from r l have "adds P s1 s'"
    by (auto simp: readRequest_def Let_def adds_tick adds_log assms split: if_splits)
  with a show ?thesis by (rule adds_trans)
qed

lemma handshakeForWebSocket_adds:
  assumes "\<And>d. P (DuplicateSocket d)" and "\<And>d. P (NewWebSocket d)" and "P ConnectDeleteLater"
    and "P MoveToThread" and "\<And>i. P (FindSession i)" and "\<And>x. P (StartWorkerForOpening x)"
  shows "handshakeForWebSocket env header s = (ok, s') \<Longrightarrow> adds P s s'"
  by (auto simp: handshakeForWebSocket_def Let_def adds_iff log_def logs_def assms
      split: if_splits)

lemma execute_all_adds_any:
  assumes "\<And>r i. P (Execute r i)"
  shows "adds P s (case execute_all env reqs s of Inl (f, s') \<Rightarrow> s' | Inr s' \<Rightarrow> s')"
proof (induction reqs arbitrary: s)
  case Nil
  show ?case by (simp add: adds_refl)
next
  case (Cons req reqs)
  let ?s1 = "log (Execute req (sock_socketId env)) s"
  have step: "adds P s ?s1" by (simp add: adds_log assms)
  show ?case
  proof (cases "ctx_execute env req (sock_socketId env)")
    case Returns
    then have "execute_all env (req # reqs) s = execute_all env reqs ?s1" by (simp add: Let_def)
    with Cons.IH [of ?s1] step show ?thesis by (auto intro: adds_trans)
  next
    case (Throws g)
    then have "execute_all env (req # reqs) s = Inl (g, ?s1)" by (simp add: Let_def)
    with step show ?thesis by simp
  qed
qed

lemma execute_all_adds:
  assumes "\<And>r i. P (Execute r i)"
  shows "execute_all env reqs s = Inr s' \<Longrightarrow> adds P s s'"
    and "execute_all env reqs s = Inl (f, s') \<Longrightarrow> adds P s s'"
  using execute_all_adds_any [of P s env reqs, OF assms] by simp_all

lemma keepAliveWait_adds:
  assumes "\<And>l m. P (Log l m)" and "P (WaitForReadyRead 5)" and "P (LoopProcessEvents True)"
  shows "keepAliveWait n env s = Some (b, s') \<Longrightarrow> adds P s s'"
proof (induction n arbitrary: s)
  case 0
  then show ?case by simp
next
  case (Suc n)
  let ?s1 = "(log (WaitForReadyRead 5) s)\<lparr>tick := Suc (tick s)\<rparr>"
  let ?ob = "sock_history env (tick ?s1)"
  have first: "adds P s ?s1" by (simp add: adds_tick adds_log assms)
  show ?case
  proof (cases "\<not> readyRead (sock_history env (tick s)) \<and> sock_state ?ob = ConnectedState
                 \<and> \<not> idleTime ?ob \<ge> keepAliveTimeout ?s1")
    case True
    with Suc.prems have "keepAliveWait n env (log (LoopProcessEvents True) ?s1) = Some (b, s')"
      by (simp add: Let_def)
    then have "adds P (log (LoopProcessEvents True) ?s1) s'" by (rule Suc.IH)
    moreover have "adds P ?s1 (log (LoopProcessEvents True) ?s1)" by (simp add: adds_log assms)
    ultimately show ?thesis using first by (blast intro: adds_trans)
  next
    case False
    with Suc.prems have "adds P ?s1 s'"
      by (auto simp: Let_def adds_log adds_refl assms split: if_splits)
    with first show ?thesis by (rule adds_trans)
  qed
qed

lemma try_loop_adds:
  assumes P: "\<And>e. \<not> is_counter e \<Longrightarrow> P e"
  shows "try_loop n env s = Some (l, s') \<Longrightarrow> adds P s s'"
proof (induction n arbitrary: s)
  case 0
  then show ?case by simp
next
  case (Suc n)
  note run = Suc.prems
  have ev: "\<And>l m. P (Log l m)" "P (WaitForReadyRead 200)" "P (WaitForReadyRead 5)"
    "P SocketAbort" "\<And>k. P (SocketRead k)" "\<And>r i. P (Execute r i)"
    "P (LoopProcessEvents True)" "\<And>d. P (DuplicateSocket d)" "\<And>d. P (NewWebSocket d)"
    "P ConnectDeleteLater" "P MoveToThread" "\<And>i. P (FindSession i)"
    "\<And>x. P (StartWorkerForOpening x)"
    by (simp_all add: P is_counter_def)
  from run obtain reqs s1 where rd: "readRequest n env s = Some (reqs, s1)"
    by (cases "readRequest n env s") auto
  have a1: "adds P s s1" using rd by (rule readRequest_adds [OF ev(1,2,4,5)])
  let ?s2 = "log (Log SystemDebug (RequestCount (length reqs))) s1"
  have a2: "adds P s ?s2" using a1 adds_log [of P _ s1] ev(1) by (blast intro: adds_trans)
  show ?case
  proof (cases reqs)
    case Nil
    with run rd have "s' = ?s2" by simp
    with a2 show ?thesis by simp
  next
    case (Cons req0 rest)
    show ?thesis
    proof (cases "contains (toLower (connection_hdr req0)) ''upgrade''")
      case up: True
      let ?s3 = "log (Log SystemDebug (UpgradeValue (toLower (upgrade_hdr req0)))) ?s2"
      have a3: "adds P s ?s3" using a2 adds_log [of P _ ?s2] ev(1) by (blast intro: adds_trans)
      show ?thesis
      proof (cases "toLower (upgrade_hdr req0) = ''websocket''")
        case True
        obtain ok s4 where h: "handshakeForWebSocket env req0 ?s3 = (ok, s4)"
          by (cases "handshakeForWebSocket env req0 ?s3") auto
        then have "adds P ?s3 s4" by (rule handshakeForWebSocket_adds [OF ev(8-13)])
        moreover from run rd Cons up True h have "s' = s4"
          by (auto simp: Let_def split: if_splits)
        ultimately show ?thesis using a3 by (blast intro: adds_trans)
      next
        case False
        with run rd Cons up have "s' = ?s3" by (simp add: Let_def)
        with a3 show ?thesis by simp
      qed
    next
      case noup: False
      show ?thesis
      proof (cases "execute_all env reqs ?s2")
        case (Inl fs)
        obtain f s3 where fs: "fs = (f, s3)" by (cases fs) auto
        with Inl have "adds P ?s2 s3" by (auto intro: execute_all_adds(2) [of P, OF ev(6)])
        moreover from run rd Cons noup Inl fs have "s' = s3" by (simp add: Let_def)
        ultimately show ?thesis using a2 by (blast intro: adds_trans)
      next
        case (Inr s3)
        then have "adds P ?s2 s3" by (rule execute_all_adds(1) [of P, OF ev(6)])
        with a2 have a3: "adds P s s3" by (rule adds_trans)
        show ?thesis
        proof (cases "keepAliveTimeout s3 = 0 \<or> (threadCount s3 \<ge> maxThreads s3 \<and> maxThreads s3 > 0)")
          case True
          with run rd Cons noup Inr have "s' = s3" by (auto simp: Let_def split: if_splits)
          with a3 show ?thesis by simp
        next
          case False
          with run rd Cons noup Inr obtain b s4 where
            w: "keepAliveWait n env s3 = Some (b, s4)"
            by (cases "keepAliveWait n env s3") (auto simp: Let_def)
          then have "adds P s3 s4" by (rule keepAliveWait_adds [OF ev(1,3,7)])
          with a3 have a4: "adds P s s4" by (rule adds_trans)
          show ?thesis
          proof (cases b)
            case True
            with run rd Cons noup Inr False w have "s' = s4" by (auto simp: Let_def)
            with a4 show ?thesis by simp
          next
            case nb: False
            with run rd Cons noup Inr False w have "try_loop n env s4 = Some (l, s')"
              by (auto simp: Let_def)
            then have "adds P s4 s'" by (rule Suc.IH)
            with a4 show ?thesis by (rule adds_trans)
          qed
        qed
      qed
    qed
  qed
qed

lemma after_try_adds:
  assumes P: "\<And>e. \<not> is_counter e \<Longrightarrow> P e"
  shows "adds P s (after_try l s)"
proof -
  have ev: "\<And>l m. P (Log l m)" "\<And>c h. P (WriteResponse c h)" "P SocketClose"
    "\<And>b. P (LoopProcessEvents b)" "P Release" "\<And>b. P (SetCurrentDatabaseContext b)"
    "P DeleteLater"
    by (simp_all add: P is_counter_def)
  show ?thesis
  proof (cases l)
    case (Thrown f)
    then show ?thesis
      by (cases f)
         (simp_all add: receive_end_def socket_cleanup_def socket_error_def closeHttpSocket_def
            adds_iff log_def logs_def ev)
  qed (simp_all add: receive_end_def socket_cleanup_def socket_error_def closeHttpSocket_def
         adds_iff log_def logs_def ev)
qed

lemma run_counter:
  assumes "run fuel env s0 = Some s'"
  shows "threadCounter s' = threadCounter s0
    \<and> (\<exists>mid. trace s' = trace s0 @ [CounterInc] @ mid @ [CounterDec]
              \<and> list_all (\<lambda>e. \<not> is_counter e) mid)"
proof (cases "sock_setSocketDescriptor env (socketDesc (run_start s0))")
  case False
  with assms have "s' = Counter_dtor (socket_error (run_failed env (run_start s0)))"
    by (simp add: run_def Let_def)
  then show ?thesis
    by (simp add: Counter_dtor_def Counter_ctor_def socket_error_def run_failed_def run_start_def
        log_def logs_def is_counter_def)
next
  case True
  let ?P = "\<lambda>e. \<not> is_counter e"
  let ?s = "run_acquired (run_start s0)"
  from assms True obtain l s4 where t: "try_loop fuel env ?s = Some (l, s4)"
    and s': "s' = Counter_dtor (after_try l s4)"
    by (cases "try_loop fuel env ?s") (auto simp: run_def Let_def)
  from t have "adds ?P ?s s4" by (rule try_loop_adds [rotated]) simp
  moreover have "adds ?P s4 (after_try l s4)" by (rule after_try_adds) simp
  ultimately have "adds ?P ?s (after_try l s4)" by (rule adds_trans)
  then obtain es where es: "trace (after_try l s4) = trace ?s @ es" "list_all ?P es"
    and c: "threadCounter (after_try l s4) = threadCounter ?s"
    by (auto simp: adds_iff)
  have st: "trace ?s = trace s0 @ [CounterInc, NewHttpSocket, SetCurrentDatabaseContext True]"
    "threadCounter ?s = threadCounter s0 + 1"
    by (simp_all add: run_acquired_def run_start_def Counter_ctor_def log_def)
  from s' es st have "trace s' = trace s0 @ [CounterInc]
      @ ([NewHttpSocket, SetCurrentDatabaseContext True] @ es) @ [CounterDec]"
    by (simp add: Counter_dtor_def log_def)
  moreover from es have "list_all ?P ([NewHttpSocket, SetCurrentDatabaseContext True] @ es)"
    by (simp add: is_counter_def)
  moreover from s' c st have "threadCounter s' = threadCounter s0" by (simp add: Counter_dtor_def log_def)
  ultimately show ?thesis by blast
qed

lemma pool_counter:
  assumes "pool g ph"
  shows "finite {w. ph w = InRun} \<and> threadCounter g = int (card {w. ph w = InRun})"
  using assms
proof (induction rule: pool.induct)
  case pool_init
  show ?case by (simp add: initial_globals_def)
next
  case (pool_enter g ph w)
  let ?S = "{v. ph v = InRun}"
  have eq: "{v. (ph(w := InRun)) v = InRun} = insert w ?S" by auto
  from pool_enter have "w \<notin> ?S" by simp
  with pool_enter.IH have "finite (insert w ?S)" "int (card (insert w ?S)) = threadCounter g + 1"
    by simp_all
  then show ?case unfolding eq by (simp add: Counter_ctor_def log_def)
next
  case (pool_leave g ph w)
  let ?S = "{v. ph v = InRun}"
  have eq: "{v. (ph(w := Exited)) v = InRun} = ?S - {w}" by auto
  from pool_leave have mem: "w \<in> ?S" by simp
  with pool_leave.IH have "0 < card ?S" by (auto simp: card_gt_0_iff)
  with pool_leave.IH mem have "finite (?S - {w})" "int (card (?S - {w})) = threadCounter g - 1"
    by (simp_all add: of_nat_diff)
  then show ?case unfolding eq by (simp add: Counter_dtor_def log_def)
qed

text \<open>
  C3. Every run() that returns, on whatever path, has appended one increment of the counter
  as its first event and one decrement as its last, no other write of the counter between
  them, and leaves the counter at the value it found. In a pool of workers that each enter
  and leave run() once, with these two atomic writes as the steps, the counter is at every
  reachable moment the number of workers inside run().
\<close>

theorem worker_counter_once:
  "(run fuel env s0 = Some s' \<longrightarrow>
      threadCounter s' = threadCounter s0
      \<and> (\<exists>mid. trace s' = trace s0 @ [CounterInc] @ mid @ [CounterDec]
                \<and> list_all (\<lambda>e. \<not> is_counter e) mid))
   \<and> (pool g ph \<longrightarrow>
        finite {w. ph w = InRun} \<and> threadCounter g = int (card {w. ph w = InRun}))"
  using run_counter [of fuel env s0 s'] pool_counter [of g ph] by blast

lemma run_example_fault:
  "run 5 (one_batch_env [request ''keep-alive'' [] 1, request [] [] 2]
            (fails_on 1 (ClientErrorException 400)) False)
         (fresh_worker None 12 0) =
   Some \<lparr>threadCounter = 0, keepAliveTimeout = 10,
     trace =
       [ReadSetting ''HttpKeepAliveTimeout'', CounterInc, NewHttpSocket,
        SetCurrentDatabaseContext True, SocketRead 2,
        Log SystemDebug (RequestCount 2),
        Execute (request ''keep-alive'' [] 1) 7,
        Log AppWarn (CaughtClientError 400),
        Log SystemWarn (CaughtClientError 400), WriteResponse 400 [],
        SocketClose, LoopProcessEvents False, Release,
        SetCurrentDatabaseContext False, DeleteLater, CounterDec],
     socketDesc = 0, maxThreads = 0, httpSocket = None, tick = 1\<rparr>"
  by code_simp

lemma run_example_failed_acquisition:
  "run 0 (one_batch_env [] always_returns False) (fresh_worker None 0 0) =
   Some \<lparr>threadCounter = 0, keepAliveTimeout = 10,
     trace =
       [ReadSetting ''HttpKeepAliveTimeout'', CounterInc, NewHttpSocket,
        Log SystemError (FailedSetSocketDescriptor 0), EmitError 0, TfClose 0,
        Release, SetCurrentDatabaseContext False, DeleteLater, CounterDec],
     socketDesc = 0, maxThreads = 0, httpSocket = None, tick = 0\<rparr>"
  by code_simp

lemma fresh_worker_fields:
  "threadCounter (fresh_worker setting socket maxThr) = 0"
  "socketDesc (fresh_worker setting socket maxThr) = socket"
  "maxThreads (fresh_worker setting socket maxThr) = maxThr"
  "trace (fresh_worker setting socket maxThr) = [ReadSetting ''HttpKeepAliveTimeout'']"
  "tick (fresh_worker setting socket maxThr) = 0"
  "httpSocket (fresh_worker setting socket maxThr) = None"
  by (simp_all add: fresh_worker_def TActionThread_def initial_globals_def log_def)

lemma fresh_worker_timeout:
  "keepAliveTimeout (fresh_worker None socket maxThr) = 10"
  "keepAliveTimeout (fresh_worker (Some ''0'') socket maxThr) = 0"
  "keepAliveTimeout (fresh_worker (Some ''30'') socket maxThr) = 30"
  by (simp_all add: fresh_worker_def TActionThread_def initial_globals_def log_def
      appSettings_value_def decimal_toInt_examples)

lemma pool_example: "pool (Counter_ctor initial_globals) only_first_running"
  unfolding only_first_running_def by (rule pool_enter [OF pool_init]) simp

theorem worker_counter_once_witness:
  "run 5 (one_batch_env [request ''keep-alive'' [] 1, request [] [] 2]
            (fails_on 1 (ClientErrorException 400)) False)
         (fresh_worker None 12 0) =
   Some \<lparr>threadCounter = 0, keepAliveTimeout = 10,
     trace =
       [ReadSetting ''HttpKeepAliveTimeout'', CounterInc, NewHttpSocket,
        SetCurrentDatabaseContext True, SocketRead 2,
        Log SystemDebug (RequestCount 2),
        Execute (request ''keep-alive'' [] 1) 7,
        Log AppWarn (CaughtClientError 400),
        Log SystemWarn (CaughtClientError 400), WriteResponse 400 [],
        SocketClose, LoopProcessEvents False, Release,
        SetCurrentDatabaseContext False, DeleteLater, CounterDec],
     socketDesc = 0, maxThreads = 0, httpSocket = None, tick = 1\<rparr>
   \<and> threadCounter (fresh_worker None 12 0) = 0
   \<and> run 0 (one_batch_env [] always_returns False) (fresh_worker None 0 0) =
   Some \<lparr>threadCounter = 0, keepAliveTimeout = 10,
     trace =
       [ReadSetting ''HttpKeepAliveTimeout'', CounterInc, NewHttpSocket,
        Log SystemError (FailedSetSocketDescriptor 0), EmitError 0, TfClose 0,
        Release, SetCurrentDatabaseContext False, DeleteLater, CounterDec],
     socketDesc = 0, maxThreads = 0, httpSocket = None, tick = 0\<rparr>
   \<and> pool (Counter_ctor initial_globals) only_first_running
   \<and> finite {w. only_first_running w = InRun}
   \<and> threadCounter (Counter_ctor initial_globals) = int (card {w. only_first_running w = InRun})"
  using worker_counter_once [OF, of 5
      "one_batch_env [request ''keep-alive'' [] 1, request [] [] 2]
            (fails_on 1 (ClientErrorException 400)) False"
      "fresh_worker None 12 0" _ "Counter_ctor initial_globals" only_first_running]
    worker_counter_once [of 0 "one_batch_env [] always_returns False" "fresh_worker None 0 0"]
    run_example_fault run_example_failed_acquisition pool_example
  by (simp add: fresh_worker_fields)

subsection \<open>One cycle of the loop\<close>

text \<open>
  Every cycle of the loop of run() is a call \<open>try_loop (Suc n) env s\<close>, and its result is the
  result of the whole loop, since the loop calls itself last. The cycle is unfolded here
  for a batch that has been read.
\<close>

lemma try_loop_batch:
  assumes "readRequest n env s = Some (req0 # rest, s1)"
  shows "try_loop (Suc n) env s =
    (let reqs = req0 # rest;
         s2 = log (Log SystemDebug (RequestCount (length reqs))) s1;
         connectionHeader = toLower (connection_hdr req0) in
     if contains connectionHeader ''upgrade'' then
       (let upgradeHeader = toLower (upgrade_hdr req0);
            s3 = log (Log SystemDebug (UpgradeValue upgradeHeader)) s2
        in
          if upgradeHeader = ''websocket'' then
            (case handshakeForWebSocket env req0 s3 of
               (ok, s4) \<Rightarrow>
                 if \<not> ok then Some (GotoSocketError, s4)
                 else Some (GotoSocketCleanup, s4))
          else Some (GotoSocketCleanup, s3))
     else
       (case execute_all env reqs s2 of
          Inl (f, s3) \<Rightarrow> Some (Thrown f, s3)
        | Inr s3 \<Rightarrow>
            if keepAliveTimeout s3 = 0 then Some (Break, s3)
            else if threadCount s3 \<ge> maxThreads s3 \<and> maxThreads s3 > 0 then
              Some (Break, s3)
            else
              (case keepAliveWait n env s3 of
                 None \<Rightarrow> None
               | Some (True, s4) \<Rightarrow> Some (GotoReceiveEnd, s4)
               | Some (False, s4) \<Rightarrow> try_loop n env s4)))"
  using assms by (simp add: Let_def)

lemma upgrade_examples:
  "contains (toLower ''Upgrade'') ''upgrade''"
  "contains (toLower ''keep-alive, Upgrade'') ''upgrade''"
  "\<not> contains (toLower ''keep-alive'') ''upgrade''"
  "\<not> contains (toLower []) ''upgrade''"
  "toLower ''h2c'' = ''h2c''"
  "toLower ''WebSocket'' = ''websocket''"
  by code_simp+

subsection \<open>Upgrade requests\<close>

text \<open>
  C7, as the program has it. When the Connection field of the first request of a batch
  contains "upgrade" (in any case) and its Upgrade field is not "websocket" (in any case),
  the cycle leaves the loop by goto socket_cleanup. What follows the reading of the batch,
  up to the end of run(), is: two debug messages, the drain of the event queue, release(),
  the clearing of the database context and deleteLater() on the socket. No request of the
  batch is dispatched, and closeHttpSocket() is not called: the socket object is left to its
  deferred deletion.
\<close>

theorem unknown_upgrade_not_closed:
  assumes "readRequest n env s = Some (req0 # rest, s1)"
    and "contains (toLower (connection_hdr req0)) ''upgrade''"
    and "toLower (upgrade_hdr req0) \<noteq> ''websocket''"
  shows "\<exists>s3. try_loop (Suc n) env s = Some (GotoSocketCleanup, s3)
    \<and> trace (after_try GotoSocketCleanup s3) =
        trace s1 @ [Log SystemDebug (RequestCount (Suc (length rest))),
                    Log SystemDebug (UpgradeValue (toLower (upgrade_hdr req0))),
                    LoopProcessEvents False, Release, SetCurrentDatabaseContext False,
                    DeleteLater]
    \<and> httpSocket (after_try GotoSocketCleanup s3) = None"
  using assms
  by (simp add: try_loop_batch Let_def socket_cleanup_def socket_error_def log_def logs_def)

lemma read_example:
  "readRequest 1 (one_batch_env reqs app endpoint) (run_acquired (run_start (fresh_worker setting 12 maxThr))) =
     Some (reqs, (log (SocketRead (length reqs)) (run_acquired (run_start (fresh_worker setting 12 maxThr))))\<lparr>tick := 1\<rparr>)"
  by (simp add: readRequest_def one_batch_env_def one_batch_def run_acquired_def run_start_def
      Counter_ctor_def log_def fresh_worker_fields)

theorem unknown_upgrade_not_closed_witness:
  "readRequest 1 (one_batch_env [request ''Upgrade'' ''h2c'' 1, request [] [] 2] always_returns True)
      (run_acquired (run_start (fresh_worker None 12 0))) =
     Some ([request ''Upgrade'' ''h2c'' 1, request [] [] 2],
           (log (SocketRead 2) (run_acquired (run_start (fresh_worker None 12 0))))\<lparr>tick := 1\<rparr>)
   \<and> contains (toLower (connection_hdr (request ''Upgrade'' ''h2c'' 1))) ''upgrade''
   \<and> toLower (upgrade_hdr (request ''Upgrade'' ''h2c'' 1)) \<noteq> ''websocket''
   \<and> map_option fst (try_loop 2 (one_batch_env [request ''Upgrade'' ''h2c'' 1, request [] [] 2] always_returns True)
        (run_acquired (run_start (fresh_worker None 12 0)))) = Some GotoSocketCleanup"
proof -
  let ?env = "one_batch_env [request ''Upgrade'' ''h2c'' 1, request [] [] 2] always_returns True"
  let ?s = "run_acquired (run_start (fresh_worker None 12 0))"
  have r: "readRequest 1 ?env ?s =
     Some (request ''Upgrade'' ''h2c'' 1 # [request [] [] 2], (log (SocketRead 2) ?s)\<lparr>tick := 1\<rparr>)"
    using read_example [of "[request ''Upgrade'' ''h2c'' 1, request [] [] 2]" always_returns True None 0]
    by (simp add: numeral_2_eq_2)
  have c: "contains (toLower (connection_hdr (request ''Upgrade'' ''h2c'' 1))) ''upgrade''"
    by (simp add: request_def upgrade_examples)
  have u: "toLower (upgrade_hdr (request ''Upgrade'' ''h2c'' 1)) \<noteq> ''websocket''"
    by (simp add: request_def upgrade_examples)
  have two: "Suc 1 = 2" by simp
  show ?thesis
    using unknown_upgrade_not_closed [OF r c u] r c u unfolding two by auto
qed

text \<open>
  The run in which C7 fails as the specification states it: the batch begins with a request for an
  upgrade to "h2c"; run() drains the event queue and schedules the deletion of the socket,
  and its events do not include the close of the socket.
\<close>

theorem unknown_upgrade_counterexample:
  "map_option trace
     (run 5 (one_batch_env [request ''Upgrade'' ''h2c'' 1, request [] [] 2] always_returns True)
        (fresh_worker None 12 0)) =
   Some [ReadSetting ''HttpKeepAliveTimeout'', CounterInc, NewHttpSocket,
         SetCurrentDatabaseContext True, SocketRead 2, Log SystemDebug (RequestCount 2),
         Log SystemDebug (UpgradeValue ''h2c''), LoopProcessEvents False, Release,
         SetCurrentDatabaseContext False, DeleteLater, CounterDec]
   \<and> SocketClose \<notin> set (trace (the
        (run 5 (one_batch_env [request ''Upgrade'' ''h2c'' 1, request [] [] 2] always_returns True)
           (fresh_worker None 12 0))))"
  by code_simp

text \<open>
  C4, as the program has it. For a batch whose first request asks for an upgrade to
  "websocket": when the endpoint lookup finds no match, handshakeForWebSocket returns false
  and changes nothing, and the cycle leaves the loop by goto socket_error, so that what
  follows the reading of the batch is two debug messages, release(), the clearing of the
  database context and deleteLater(), with neither the close of the socket nor the drain of
  the event queue nor a dispatch. When the lookup finds a match, handshakeForWebSocket
  returns true (it has no failure after a match) and the cycle leaves the loop by goto
  socket_cleanup.
\<close>

theorem websocket_no_endpoint_is_socket_error:
  assumes "readRequest n env s = Some (req0 # rest, s1)"
    and "contains (toLower (connection_hdr req0)) ''upgrade''"
    and "toLower (upgrade_hdr req0) = ''websocket''"
    and "s3 = logs [Log SystemDebug (RequestCount (Suc (length rest))),
                    Log SystemDebug (UpgradeValue ''websocket'')] s1"
  shows "(\<not> ws_searchEndpoint env req0 \<longrightarrow>
            handshakeForWebSocket env req0 s3 = (False, s3)
            \<and> try_loop (Suc n) env s = Some (GotoSocketError, s3)
            \<and> trace (after_try GotoSocketError s3) =
                trace s1 @ [Log SystemDebug (RequestCount (Suc (length rest))),
                            Log SystemDebug (UpgradeValue ''websocket''),
                            Release, SetCurrentDatabaseContext False, DeleteLater])
    \<and> (ws_searchEndpoint env req0 \<longrightarrow>
            fst (handshakeForWebSocket env req0 s3)
            \<and> try_loop (Suc n) env s = Some (GotoSocketCleanup, snd (handshakeForWebSocket env req0 s3)))"
proof -
  have s3: "s3 = log (Log SystemDebug (UpgradeValue ''websocket''))
                  (log (Log SystemDebug (RequestCount (length (req0 # rest)))) s1)"
    using assms(4) by (simp add: log_def logs_def)
  have no: "\<not> ws_searchEndpoint env req0 \<Longrightarrow> handshakeForWebSocket env req0 s3 = (False, s3)"
    by (simp add: handshakeForWebSocket_def)
  have yes: "ws_searchEndpoint env req0 \<Longrightarrow> fst (handshakeForWebSocket env req0 s3)"
    by (simp add: handshakeForWebSocket_def Let_def split: prod.splits)
  have loop: "try_loop (Suc n) env s =
      (if \<not> fst (handshakeForWebSocket env req0 s3)
       then Some (GotoSocketError, snd (handshakeForWebSocket env req0 s3))
       else Some (GotoSocketCleanup, snd (handshakeForWebSocket env req0 s3)))"
    using assms(2,3) unfolding try_loop_batch [OF assms(1)] s3
    by (simp add: Let_def split: prod.splits)
  have tr: "trace (after_try GotoSocketError s3) =
      trace s1 @ [Log SystemDebug (RequestCount (Suc (length rest))),
                  Log SystemDebug (UpgradeValue ''websocket''),
                  Release, SetCurrentDatabaseContext False, DeleteLater]"
    using assms(4) by (simp add: socket_error_def logs_def)
  show ?thesis using no yes loop tr by auto
qed

theorem websocket_no_endpoint_is_socket_error_witness:
  "readRequest 1 (one_batch_env [request ''keep-alive, Upgrade'' ''WebSocket'' 1] always_returns False)
      (run_acquired (run_start (fresh_worker None 12 0))) =
     Some ([request ''keep-alive, Upgrade'' ''WebSocket'' 1],
           (log (SocketRead 1) (run_acquired (run_start (fresh_worker None 12 0))))\<lparr>tick := 1\<rparr>)
   \<and> contains (toLower (connection_hdr (request ''keep-alive, Upgrade'' ''WebSocket'' 1))) ''upgrade''
   \<and> toLower (upgrade_hdr (request ''keep-alive, Upgrade'' ''WebSocket'' 1)) = ''websocket''
   \<and> \<not> ws_searchEndpoint (one_batch_env [request ''keep-alive, Upgrade'' ''WebSocket'' 1] always_returns False)
          (request ''keep-alive, Upgrade'' ''WebSocket'' 1)
   \<and> ws_searchEndpoint (one_batch_env [request ''keep-alive, Upgrade'' ''WebSocket'' 1] always_returns True)
          (request ''keep-alive, Upgrade'' ''WebSocket'' 1)
   \<and> map_option fst (try_loop 2 (one_batch_env [request ''keep-alive, Upgrade'' ''WebSocket'' 1] always_returns False)
        (run_acquired (run_start (fresh_worker None 12 0)))) = Some GotoSocketError
   \<and> map_option fst (try_loop 2 (one_batch_env [request ''keep-alive, Upgrade'' ''WebSocket'' 1] always_returns True)
        (run_acquired (run_start (fresh_worker None 12 0)))) = Some GotoSocketCleanup"
proof -
  let ?rq = "request ''keep-alive, Upgrade'' ''WebSocket'' 1"
  let ?s = "run_acquired (run_start (fresh_worker None 12 0))"
  let ?s1 = "(log (SocketRead 1) ?s)\<lparr>tick := 1\<rparr>"
  have r: "readRequest 1 (one_batch_env [?rq] always_returns e) ?s = Some (?rq # [], ?s1)" for e
    using read_example [of "[?rq]" always_returns e None 0] by simp
  have c: "contains (toLower (connection_hdr ?rq)) ''upgrade''"
    by (simp add: request_def upgrade_examples)
  have u: "toLower (upgrade_hdr ?rq) = ''websocket''"
    by (simp add: request_def upgrade_examples)
  have e: "\<not> ws_searchEndpoint (one_batch_env [?rq] always_returns False) ?rq"
    "ws_searchEndpoint (one_batch_env [?rq] always_returns True) ?rq"
    by (simp_all add: one_batch_env_def)
  have two: "Suc 1 = 2" by simp
  show ?thesis
    using websocket_no_endpoint_is_socket_error [OF r [of False] c u refl]
      websocket_no_endpoint_is_socket_error [OF r [of True] c u refl] r c u e
    unfolding two by auto
qed

text \<open>
  The run in which C4 fails as the specification states it: an upgrade to websocket for which no
  endpoint is found. The loop is left for the label socket_error, and run() neither closes
  the socket nor drains the event queue.
\<close>

theorem websocket_no_endpoint_counterexample:
  "map_option fst
     (try_loop 5 (one_batch_env [request ''keep-alive, Upgrade'' ''WebSocket'' 1] always_returns False)
        (run_acquired (run_start (fresh_worker None 12 0)))) = Some GotoSocketError
   \<and> map_option trace
     (run 5 (one_batch_env [request ''keep-alive, Upgrade'' ''WebSocket'' 1] always_returns False)
        (fresh_worker None 12 0)) =
   Some [ReadSetting ''HttpKeepAliveTimeout'', CounterInc, NewHttpSocket,
         SetCurrentDatabaseContext True, SocketRead 1, Log SystemDebug (RequestCount 1),
         Log SystemDebug (UpgradeValue ''websocket''), Release,
         SetCurrentDatabaseContext False, DeleteLater, CounterDec]
   \<and> SocketClose \<notin> set (trace (the
        (run 5 (one_batch_env [request ''keep-alive, Upgrade'' ''WebSocket'' 1] always_returns False)
           (fresh_worker None 12 0))))
   \<and> LoopProcessEvents False \<notin> set (trace (the
        (run 5 (one_batch_env [request ''keep-alive, Upgrade'' ''WebSocket'' 1] always_returns False)
           (fresh_worker None 12 0))))"
  by code_simp

subsection \<open>Dispatch\<close>

lemma try_loop_dispatch_fault:
  assumes "readRequest n env s = Some (req0 # rest, s1)"
    and "\<not> contains (toLower (connection_hdr req0)) ''upgrade''"
    and "execute_all env (req0 # rest) (log (Log SystemDebug (RequestCount (length (req0 # rest)))) s1)
           = Inl (f, s3)"
  shows "try_loop (Suc n) env s = Some (Thrown f, s3)"
  using assms(2,3) unfolding try_loop_batch [OF assms(1)]
  by (simp add: Let_def del: execute_all.simps)

lemma try_loop_dispatch_ok:
  assumes "readRequest n env s = Some (req0 # rest, s1)"
    and "\<not> contains (toLower (connection_hdr req0)) ''upgrade''"
    and "execute_all env (req0 # rest) (log (Log SystemDebug (RequestCount (length (req0 # rest)))) s1)
           = Inr s3"
  shows "try_loop (Suc n) env s =
    (if keepAliveTimeout s3 = 0 then Some (Break, s3)
     else if threadCount s3 \<ge> maxThreads s3 \<and> maxThreads s3 > 0 then Some (Break, s3)
     else (case keepAliveWait n env s3 of
             None \<Rightarrow> None
           | Some (True, s4) \<Rightarrow> Some (GotoReceiveEnd, s4)
           | Some (False, s4) \<Rightarrow> try_loop n env s4))"
  using assms(2,3) unfolding try_loop_batch [OF assms(1)]
  by (simp add: Let_def del: execute_all.simps)

lemma logs_Nil: "logs [] s = s"
  by (simp add: logs_def)

lemma logs_Cons: "logs (e # es) s = logs es (log e s)"
  by (simp add: logs_def log_def)

lemma execute_all_returns:
  "(\<forall>i<length reqs. ctx_execute env (reqs ! i) (sock_socketId env) = Returns) \<Longrightarrow>
   execute_all env reqs s = Inr (logs (map (\<lambda>q. Execute q (sock_socketId env)) reqs) s)"
proof (induction reqs arbitrary: s)
  case Nil
  show ?case by (simp add: logs_Nil)
next
  case (Cons req reqs)
  from Cons.prems have h: "ctx_execute env req (sock_socketId env) = Returns" by auto
  from Cons.prems have t: "\<forall>i<length reqs. ctx_execute env (reqs ! i) (sock_socketId env) = Returns"
    by auto
  show ?case using h Cons.IH [OF t] by (simp add: Let_def logs_Cons)
qed

lemma execute_all_throws:
  "k < length reqs \<Longrightarrow>
   (\<forall>i<k. ctx_execute env (reqs ! i) (sock_socketId env) = Returns) \<Longrightarrow>
   ctx_execute env (reqs ! k) (sock_socketId env) = Throws f \<Longrightarrow>
   execute_all env reqs s =
     Inl (f, logs (map (\<lambda>q. Execute q (sock_socketId env)) (take (Suc k) reqs)) s)"
proof (induction reqs arbitrary: s k)
  case Nil
  then show ?case by simp
next
  case (Cons req reqs)
  show ?case
  proof (cases k)
    case 0
    with Cons.prems show ?thesis by (simp add: Let_def logs_Cons logs_Nil)
  next
    case (Suc j)
    with Cons.prems have h: "ctx_execute env req (sock_socketId env) = Returns" by auto
    from Suc Cons.prems have j: "j < length reqs"
      "\<forall>i<j. ctx_execute env (reqs ! i) (sock_socketId env) = Returns"
      "ctx_execute env (reqs ! j) (sock_socketId env) = Throws f"
      by auto
    show ?thesis using h Suc Cons.IH [OF j] by (simp add: Let_def logs_Cons)
  qed
qed

text \<open>
  C6. For a batch that is read in a cycle and is not an upgrade request: when the dispatcher
  returns for the units before unit \<open>k\<close> and throws on unit \<open>k\<close>, the cycle leaves the loop
  with that fault, and all that run() does after the reading is to dispatch the units
  0..k in their order, to answer the fault and to clean up; the units after \<open>k\<close> are never
  dispatched. When the dispatcher returns for every unit, whatever the loop does after the
  reading begins with the dispatch of all units of the batch in their order.
\<close>

theorem batch_dispatched_in_order:
  assumes "readRequest n env s = Some (req0 # rest, s1)"
    and "\<not> contains (toLower (connection_hdr req0)) ''upgrade''"
    and "reqs = req0 # rest"
    and "s2 = log (Log SystemDebug (RequestCount (length reqs))) s1"
    and "sid = sock_socketId env"
  shows "(k < length reqs \<and> (\<forall>i<k. ctx_execute env (reqs ! i) sid = Returns)
            \<and> ctx_execute env (reqs ! k) sid = Throws f \<longrightarrow>
          try_loop (Suc n) env s =
            Some (Thrown f, logs (map (\<lambda>q. Execute q sid) (take (Suc k) reqs)) s2)
          \<and> trace (after_try (Thrown f) (logs (map (\<lambda>q. Execute q sid) (take (Suc k) reqs)) s2)) =
              trace s2 @ map (\<lambda>q. Execute q sid) (take (Suc k) reqs) @ handler_events f
                @ [SocketClose, LoopProcessEvents False, Release,
                   SetCurrentDatabaseContext False, DeleteLater])
    \<and> ((\<forall>i<length reqs. ctx_execute env (reqs ! i) sid = Returns) \<longrightarrow>
          execute_all env reqs s2 = Inr (logs (map (\<lambda>q. Execute q sid) reqs) s2)
          \<and> (\<forall>l s'. try_loop (Suc n) env s = Some (l, s') \<longrightarrow>
                (\<exists>es. trace s' = trace s2 @ map (\<lambda>q. Execute q sid) reqs @ es)))"
proof -
  have Lf: "\<And>f s3. execute_all env reqs s2 = Inl (f, s3) \<Longrightarrow>
      try_loop (Suc n) env s = Some (Thrown f, s3)"
    unfolding assms(3,4) by (rule try_loop_dispatch_fault [OF assms(1,2)])
  have Lok: "\<And>s3. execute_all env reqs s2 = Inr s3 \<Longrightarrow>
      try_loop (Suc n) env s =
        (if keepAliveTimeout s3 = 0 then Some (Break, s3)
         else if threadCount s3 \<ge> maxThreads s3 \<and> maxThreads s3 > 0 then Some (Break, s3)
         else (case keepAliveWait n env s3 of
                 None \<Rightarrow> None
               | Some (True, s4) \<Rightarrow> Some (GotoReceiveEnd, s4)
               | Some (False, s4) \<Rightarrow> try_loop n env s4))"
    unfolding assms(3,4) by (rule try_loop_dispatch_ok [OF assms(1,2)])
  show ?thesis
  proof (intro conjI impI)
    assume h: "k < length reqs \<and> (\<forall>i<k. ctx_execute env (reqs ! i) sid = Returns)
              \<and> ctx_execute env (reqs ! k) sid = Throws f"
    then have "execute_all env reqs s2 =
        Inl (f, logs (map (\<lambda>q. Execute q sid) (take (Suc k) reqs)) s2)"
      unfolding assms(5) by (intro execute_all_throws) auto
    then show "try_loop (Suc n) env s =
        Some (Thrown f, logs (map (\<lambda>q. Execute q sid) (take (Suc k) reqs)) s2)"
      by (rule Lf)
    show "trace (after_try (Thrown f) (logs (map (\<lambda>q. Execute q sid) (take (Suc k) reqs)) s2)) =
        trace s2 @ map (\<lambda>q. Execute q sid) (take (Suc k) reqs) @ handler_events f
          @ [SocketClose, LoopProcessEvents False, Release, SetCurrentDatabaseContext False,
             DeleteLater]"
      by (cases f)
         (simp_all add: handler_events_def receive_end_def socket_cleanup_def socket_error_def
            closeHttpSocket_def log_def logs_def THttpResponseHeader_def InternalServerError_def)
  next
    assume h: "\<forall>i<length reqs. ctx_execute env (reqs ! i) sid = Returns"
    then show ex: "execute_all env reqs s2 = Inr (logs (map (\<lambda>q. Execute q sid) reqs) s2)"
      unfolding assms(5) by (rule execute_all_returns)
    let ?s3 = "logs (map (\<lambda>q. Execute q sid) reqs) s2"
    have t3: "trace ?s3 = trace s2 @ map (\<lambda>q. Execute q sid) reqs" by (simp add: logs_def)
    note loop = Lok [OF ex]
    show "\<forall>l s'. try_loop (Suc n) env s = Some (l, s') \<longrightarrow>
            (\<exists>es. trace s' = trace s2 @ map (\<lambda>q. Execute q sid) reqs @ es)"
    proof (intro allI impI)
      fix l s'
      assume run: "try_loop (Suc n) env s = Some (l, s')"
      have "adds (\<lambda>e. True) ?s3 s'"
      proof (cases "keepAliveTimeout ?s3 = 0 \<or> (threadCount ?s3 \<ge> maxThreads ?s3 \<and> maxThreads ?s3 > 0)")
        case True
        with run have "s' = ?s3" unfolding loop by (auto split: if_splits)
        then show ?thesis by (simp add: adds_refl)
      next
        case False
        with run have k: "(case keepAliveWait n env ?s3 of
               None \<Rightarrow> None
             | Some (True, s4) \<Rightarrow> Some (GotoReceiveEnd, s4)
             | Some (False, s4) \<Rightarrow> try_loop n env s4) = Some (l, s')"
          unfolding loop by (simp split: if_splits)
        then obtain b s4 where w: "keepAliveWait n env ?s3 = Some (b, s4)"
          by (cases "keepAliveWait n env ?s3") auto
        from w have a: "adds (\<lambda>e. True) ?s3 s4" by (rule keepAliveWait_adds [rotated 3]) simp_all
        show ?thesis
        proof (cases b)
          case True
          with k w have "s' = s4" by simp
          with a show ?thesis by simp
        next
          case False
          with k w have "try_loop n env s4 = Some (l, s')" by simp
          then have "adds (\<lambda>e. True) s4 s'" by (rule try_loop_adds [rotated]) simp
          with a show ?thesis by (rule adds_trans)
        qed
      qed
      then obtain es where "trace s' = trace ?s3 @ es" by (auto simp: adds_iff)
      with t3 show "\<exists>es. trace s' = trace s2 @ map (\<lambda>q. Execute q sid) reqs @ es" by simp
    qed
  qed
qed

lemma plain_batch_not_upgrade:
  "\<not> contains (toLower (connection_hdr (request ''keep-alive'' [] 1))) ''upgrade''"
  by (simp add: request_def upgrade_examples)

lemma plain_batch_read:
  "readRequest 1 (one_batch_env plain_batch app endpoint)
      (run_acquired (run_start (fresh_worker setting 12 maxThr))) =
     Some (request ''keep-alive'' [] 1 # [request [] [] 2, request [] [] 3],
           (log (SocketRead 3) (run_acquired (run_start (fresh_worker setting 12 maxThr))))\<lparr>tick := 1\<rparr>)"
  using read_example [of plain_batch app endpoint setting maxThr]
  by (simp add: plain_batch_def numeral_3_eq_3)

theorem batch_dispatched_in_order_witness:
  "readRequest 1 (one_batch_env plain_batch (fails_on 2 (StdException ''boom'')) False)
      (run_acquired (run_start (fresh_worker None 12 0))) =
     Some (plain_batch,
           (log (SocketRead 3) (run_acquired (run_start (fresh_worker None 12 0))))\<lparr>tick := 1\<rparr>)
   \<and> \<not> contains (toLower (connection_hdr (request ''keep-alive'' [] 1))) ''upgrade''
   \<and> (1 :: nat) < length plain_batch
   \<and> ctx_execute (one_batch_env plain_batch (fails_on 2 (StdException ''boom'')) False)
        (plain_batch ! 0) 7 = Returns
   \<and> ctx_execute (one_batch_env plain_batch (fails_on 2 (StdException ''boom'')) False)
        (plain_batch ! 1) 7 = Throws (StdException ''boom'')
   \<and> ctx_execute (one_batch_env plain_batch always_returns False) (plain_batch ! 0) 7 = Returns
   \<and> ctx_execute (one_batch_env plain_batch always_returns False) (plain_batch ! 1) 7 = Returns
   \<and> ctx_execute (one_batch_env plain_batch always_returns False) (plain_batch ! 2) 7 = Returns
   \<and> length plain_batch = 3
   \<and> map_option fst (try_loop 2 (one_batch_env plain_batch (fails_on 2 (StdException ''boom'')) False)
        (run_acquired (run_start (fresh_worker None 12 0)))) = Some (Thrown (StdException ''boom''))
   \<and> map_option (filter is_execute \<circ> trace \<circ> snd)
        (try_loop 2 (one_batch_env plain_batch (fails_on 2 (StdException ''boom'')) False)
           (run_acquired (run_start (fresh_worker None 12 0)))) =
       Some [Execute (request ''keep-alive'' [] 1) 7, Execute (request [] [] 2) 7]"
proof -
  let ?bad = "one_batch_env plain_batch (fails_on 2 (StdException ''boom'')) False"
  let ?good = "one_batch_env plain_batch always_returns False"
  let ?s = "run_acquired (run_start (fresh_worker None 12 0))"
  let ?s1 = "(log (SocketRead 3) ?s)\<lparr>tick := 1\<rparr>"
  have pb: "plain_batch = request ''keep-alive'' [] 1 # [request [] [] 2, request [] [] 3]"
    by (simp add: plain_batch_def numeral_3_eq_3)
  have sid: "7 = sock_socketId ?bad" "7 = sock_socketId ?good"
    by (simp_all add: one_batch_env_def)
  have k: "(1 :: nat) < length plain_batch" by (simp add: plain_batch_def)
  have before: "\<forall>i<1. ctx_execute ?bad (plain_batch ! i) 7 = Returns"
    by (simp add: plain_batch_def one_batch_env_def fails_on_def request_def)
  have at: "ctx_execute ?bad (plain_batch ! 1) 7 = Throws (StdException ''boom'')"
    by (simp add: plain_batch_def one_batch_env_def fails_on_def request_def)
  have all: "\<forall>i<length plain_batch. ctx_execute ?good (plain_batch ! i) 7 = Returns"
    by (simp add: one_batch_env_def always_returns_def)
  have tr: "trace ?s = [ReadSetting ''HttpKeepAliveTimeout'', CounterInc, NewHttpSocket,
      SetCurrentDatabaseContext True]"
    by (simp add: run_acquired_def run_start_def Counter_ctor_def log_def fresh_worker_fields)
  have two: "Suc 1 = 2" by simp
  have each: "ctx_execute ?bad (plain_batch ! 0) 7 = Returns"
    "ctx_execute ?good (plain_batch ! 0) 7 = Returns"
    "ctx_execute ?good (plain_batch ! 1) 7 = Returns"
    "ctx_execute ?good (plain_batch ! 2) 7 = Returns"
    "length plain_batch = 3"
    by (simp_all add: plain_batch_def one_batch_env_def fails_on_def always_returns_def
        request_def)
  have ex: "filter is_execute (map (\<lambda>q. Execute q 7) (take 2 plain_batch)) =
      [Execute (request ''keep-alive'' [] 1) 7, Execute (request [] [] 2) 7]"
    by (simp add: plain_batch_def is_execute_def)
  show ?thesis
    using batch_dispatched_in_order [where k = 1 and f = "StdException ''boom''",
        OF plain_batch_read [of "fails_on 2 (StdException ''boom'')" False None 0]
           plain_batch_not_upgrade pb refl sid(1)]
      batch_dispatched_in_order [where k = 1 and f = "StdException ''boom''",
        OF plain_batch_read [of always_returns False None 0]
           plain_batch_not_upgrade pb refl sid(2)]
      plain_batch_read [of "fails_on 2 (StdException ''boom'')" False None 0]
      plain_batch_not_upgrade k before at all pb [symmetric] ex each
    unfolding two
    by (simp add: logs_def log_def tr is_execute_def)
qed

subsection \<open>Faults of the dispatcher\<close>

lemma try_loop_thrown_origin:
  "try_loop n env s = Some (Thrown f, s3) \<Longrightarrow> \<exists>reqs s2. execute_all env reqs s2 = Inl (f, s3)"
proof (induction n arbitrary: s)
  case 0
  then show ?case by simp
next
  case (Suc n)
  from Suc.prems obtain reqs s1 where rd: "readRequest n env s = Some (reqs, s1)"
    by (cases "readRequest n env s") auto
  show ?case
  proof (cases reqs)
    case Nil
    with Suc.prems rd show ?thesis by simp
  next
    case (Cons req0 rest)
    note batch = try_loop_batch [OF rd [unfolded Cons]]
    let ?s2 = "log (Log SystemDebug (RequestCount (length (req0 # rest)))) s1"
    show ?thesis
    proof (cases "contains (toLower (connection_hdr req0)) ''upgrade''")
      case True
      with Suc.prems show ?thesis
        unfolding batch by (auto simp: Let_def split: if_splits prod.splits)
    next
      case False
      show ?thesis
      proof (cases "execute_all env (req0 # rest) ?s2")
        case (Inl fs)
        then obtain g s4 where g: "execute_all env (req0 # rest) ?s2 = Inl (g, s4)"
          by (cases fs) auto
        from Suc.prems have "g = f \<and> s4 = s3"
          unfolding try_loop_dispatch_fault [OF rd [unfolded Cons] False g] by simp
        with g show ?thesis by blast
      next
        case (Inr s4)
        from Suc.prems obtain s5 where "try_loop n env s5 = Some (Thrown f, s3)"
          unfolding try_loop_dispatch_ok [OF rd [unfolded Cons] False Inr]
          by (auto split: if_splits option.splits bool.splits)
        then show ?thesis by (rule Suc.IH)
      qed
    qed
  qed
qed

text \<open>
  C1, as the program has it. The two handlers of run() stand behind the loop, not inside
  it. A dispatch that throws ends the loop, in every cycle and whatever the keep-alive
  timeout, the bound and the worker count are. run() then returns (the fault goes no
  further), and all it does after the throwing dispatch is: two log messages, a response
  with the status code of the ClientErrorException, or with InternalServerError for
  another std::exception, in both cases with a default-constructed header; then the close
  of the socket, the drain of the event queue and the cleanup. The keep-alive conditions
  are not evaluated and the worker does not wait for another request.
\<close>

theorem dispatch_fault_answered_then_closed:
  assumes "sock_setSocketDescriptor env (socketDesc s0)"
    and "try_loop fuel env (run_acquired (run_start s0)) = Some (Thrown f, s3)"
  shows "(\<exists>reqs s2. execute_all env reqs s2 = Inl (f, s3))
    \<and> (\<exists>s'. run fuel env s0 = Some s'
          \<and> threadCounter s' = threadCounter s0
          \<and> (\<forall>code. f = ClientErrorException code \<longrightarrow>
                trace s' = trace s3 @
                  [Log AppWarn (CaughtClientError code), Log SystemWarn (CaughtClientError code),
                   WriteResponse code THttpResponseHeader,
                   SocketClose, LoopProcessEvents False, Release,
                   SetCurrentDatabaseContext False, DeleteLater, CounterDec])
          \<and> (\<forall>what. f = StdException what \<longrightarrow>
                trace s' = trace s3 @
                  [Log AppError (CaughtException what), Log SystemError (CaughtException what),
                   WriteResponse InternalServerError THttpResponseHeader,
                   SocketClose, LoopProcessEvents False, Release,
                   SetCurrentDatabaseContext False, DeleteLater, CounterDec]))
    \<and> (readRequest n env s = Some (req0 # rest, s1)
          \<and> \<not> contains (toLower (connection_hdr req0)) ''upgrade''
          \<and> execute_all env (req0 # rest)
                (log (Log SystemDebug (RequestCount (length (req0 # rest)))) s1) = Inl (g, s4)
        \<longrightarrow> try_loop (Suc n) env s = Some (Thrown g, s4))"
proof (intro conjI)
  show "\<exists>reqs s2. execute_all env reqs s2 = Inl (f, s3)"
    using assms(2) by (rule try_loop_thrown_origin)
  have sd: "socketDesc (run_start s0) = socketDesc s0"
    by (simp add: run_start_def Counter_ctor_def log_def)
  have r: "run fuel env s0 = Some (Counter_dtor (after_try (Thrown f) s3))"
    using assms by (simp add: run_def Let_def sd)
  have "adds (\<lambda>e. True) (run_acquired (run_start s0)) s3"
    using assms(2) by (rule try_loop_adds [rotated]) simp
  then have "threadCounter s3 = threadCounter s0 + 1"
    by (simp add: adds_iff run_acquired_def run_start_def Counter_ctor_def log_def)
  then have c: "threadCounter (Counter_dtor (after_try (Thrown f) s3)) = threadCounter s0"
    by (cases f)
       (simp_all add: Counter_dtor_def receive_end_def socket_cleanup_def socket_error_def
          closeHttpSocket_def log_def logs_def)
  have t: "trace (Counter_dtor (after_try (Thrown f) s3)) =
      trace (after_try (Thrown f) s3) @ [CounterDec]"
    by (simp add: Counter_dtor_def log_def)
  show "\<exists>s'. run fuel env s0 = Some s'
          \<and> threadCounter s' = threadCounter s0
          \<and> (\<forall>code. f = ClientErrorException code \<longrightarrow>
                trace s' = trace s3 @
                  [Log AppWarn (CaughtClientError code), Log SystemWarn (CaughtClientError code),
                   WriteResponse code THttpResponseHeader,
                   SocketClose, LoopProcessEvents False, Release,
                   SetCurrentDatabaseContext False, DeleteLater, CounterDec])
          \<and> (\<forall>what. f = StdException what \<longrightarrow>
                trace s' = trace s3 @
                  [Log AppError (CaughtException what), Log SystemError (CaughtException what),
                   WriteResponse InternalServerError THttpResponseHeader,
                   SocketClose, LoopProcessEvents False, Release,
                   SetCurrentDatabaseContext False, DeleteLater, CounterDec])"
    using r c t
    by (auto simp: receive_end_def socket_cleanup_def socket_error_def closeHttpSocket_def
        log_def logs_def)
  show "readRequest n env s = Some (req0 # rest, s1)
          \<and> \<not> contains (toLower (connection_hdr req0)) ''upgrade''
          \<and> execute_all env (req0 # rest)
                (log (Log SystemDebug (RequestCount (length (req0 # rest)))) s1) = Inl (g, s4)
        \<longrightarrow> try_loop (Suc n) env s = Some (Thrown g, s4)"
    using try_loop_dispatch_fault [of n env s req0 rest s1 g s4] by blast
qed

lemma fault_example_loop:
  "try_loop 5 (two_batches_env plain_batch [request [] [] 4] (fails_on 1 (ClientErrorException 400)))
      (run_acquired (run_start (fresh_worker None 12 0))) =
   Some (Thrown (ClientErrorException 400),
         (logs [SocketRead 3, Log SystemDebug (RequestCount 3),
                Execute (request ''keep-alive'' [] 1) 7]
            (run_acquired (run_start (fresh_worker None 12 0))))\<lparr>tick := 1\<rparr>)"
  by code_simp

lemma fault_example_loop_std:
  "try_loop 5 (two_batches_env plain_batch [request [] [] 4] (fails_on 2 (StdException ''boom'')))
      (run_acquired (run_start (fresh_worker None 12 0))) =
   Some (Thrown (StdException ''boom''),
         (logs [SocketRead 3, Log SystemDebug (RequestCount 3),
                Execute (request ''keep-alive'' [] 1) 7, Execute (request [] [] 2) 7]
            (run_acquired (run_start (fresh_worker None 12 0))))\<lparr>tick := 1\<rparr>)"
  by code_simp

lemma fault_example_read:
  "readRequest 1 (two_batches_env plain_batch [request [] [] 4] (fails_on 1 (ClientErrorException 400)))
      (run_acquired (run_start (fresh_worker None 12 0))) =
   Some (request ''keep-alive'' [] 1 # [request [] [] 2, request [] [] 3],
         (log (SocketRead 3) (run_acquired (run_start (fresh_worker None 12 0))))\<lparr>tick := 1\<rparr>)"
  by code_simp

lemma fault_example_dispatch:
  "execute_all (two_batches_env plain_batch [request [] [] 4] (fails_on 1 (ClientErrorException 400)))
      (request ''keep-alive'' [] 1 # [request [] [] 2, request [] [] 3])
      (log (Log SystemDebug (RequestCount (length (request ''keep-alive'' [] 1 # [request [] [] 2, request [] [] 3]))))
         ((log (SocketRead 3) (run_acquired (run_start (fresh_worker None 12 0))))\<lparr>tick := 1\<rparr>)) =
   Inl (ClientErrorException 400,
        (logs [SocketRead 3, Log SystemDebug (RequestCount 3),
                Execute (request ''keep-alive'' [] 1) 7]
            (run_acquired (run_start (fresh_worker None 12 0))))\<lparr>tick := 1\<rparr>)"
  by code_simp

theorem dispatch_fault_answered_then_closed_witness:
  "sock_setSocketDescriptor
      (two_batches_env plain_batch [request [] [] 4] (fails_on 1 (ClientErrorException 400)))
      (socketDesc (fresh_worker None 12 0))
   \<and> try_loop 5 (two_batches_env plain_batch [request [] [] 4] (fails_on 1 (ClientErrorException 400)))
        (run_acquired (run_start (fresh_worker None 12 0))) =
      Some (Thrown (ClientErrorException 400),
            (logs [SocketRead 3, Log SystemDebug (RequestCount 3),
                   Execute (request ''keep-alive'' [] 1) 7]
               (run_acquired (run_start (fresh_worker None 12 0))))\<lparr>tick := 1\<rparr>)
   \<and> map_option trace
        (run 5 (two_batches_env plain_batch [request [] [] 4] (fails_on 1 (ClientErrorException 400)))
           (fresh_worker None 12 0)) =
      Some [ReadSetting ''HttpKeepAliveTimeout'', CounterInc, NewHttpSocket,
            SetCurrentDatabaseContext True, SocketRead 3, Log SystemDebug (RequestCount 3),
            Execute (request ''keep-alive'' [] 1) 7,
            Log AppWarn (CaughtClientError 400), Log SystemWarn (CaughtClientError 400),
            WriteResponse 400 [], SocketClose, LoopProcessEvents False, Release,
            SetCurrentDatabaseContext False, DeleteLater, CounterDec]
   \<and> map_option trace
        (run 5 (two_batches_env plain_batch [request [] [] 4] (fails_on 2 (StdException ''boom'')))
           (fresh_worker None 12 0)) =
      Some [ReadSetting ''HttpKeepAliveTimeout'', CounterInc, NewHttpSocket,
            SetCurrentDatabaseContext True, SocketRead 3, Log SystemDebug (RequestCount 3),
            Execute (request ''keep-alive'' [] 1) 7, Execute (request [] [] 2) 7,
            Log AppError (CaughtException ''boom''), Log SystemError (CaughtException ''boom''),
            WriteResponse 500 [], SocketClose, LoopProcessEvents False, Release,
            SetCurrentDatabaseContext False, DeleteLater, CounterDec]"
proof -
  let ?e1 = "two_batches_env plain_batch [request [] [] 4] (fails_on 1 (ClientErrorException 400))"
  let ?e2 = "two_batches_env plain_batch [request [] [] 4] (fails_on 2 (StdException ''boom''))"
  have d: "sock_setSocketDescriptor ?e1 (socketDesc (fresh_worker None 12 0))"
    "sock_setSocketDescriptor ?e2 (socketDesc (fresh_worker None 12 0))"
    by (simp_all add: two_batches_env_def fresh_worker_fields)
  have tr: "trace (run_acquired (run_start (fresh_worker None 12 0))) =
      [ReadSetting ''HttpKeepAliveTimeout'', CounterInc, NewHttpSocket,
       SetCurrentDatabaseContext True]"
    by (simp add: run_acquired_def run_start_def Counter_ctor_def log_def fresh_worker_fields)
  show ?thesis
    using dispatch_fault_answered_then_closed [OF d(1) fault_example_loop,
        where n = 1 and s = "run_acquired (run_start (fresh_worker None 12 0))"
          and ?req0.0 = "request ''keep-alive'' [] 1"
          and rest = "[request [] [] 2, request [] [] 3]"
          and ?s1.0 = "(log (SocketRead 3) (run_acquired (run_start (fresh_worker None 12 0))))\<lparr>tick := 1\<rparr>"
          and g = "ClientErrorException 400"
          and ?s4.0 = "(logs [SocketRead 3, Log SystemDebug (RequestCount 3),
                Execute (request ''keep-alive'' [] 1) 7]
            (run_acquired (run_start (fresh_worker None 12 0))))\<lparr>tick := 1\<rparr>"]
      dispatch_fault_answered_then_closed [OF d(2) fault_example_loop_std]
      d(1) fault_example_loop fault_example_read plain_batch_not_upgrade fault_example_dispatch
    by (auto simp: tr logs_def THttpResponseHeader_def InternalServerError_def)
qed

text \<open>
  The runs in which C1 fails as the specification states it. The worker is constructed with the
  default timeout of 10 seconds and no bound, and its socket has a second batch to deliver.
  When all dispatches return, the worker waits for the second batch and serves it. When the
  dispatch of the first request throws a ClientErrorException with status 400, the worker
  answers 400 and closes the socket at once: it never waits, and the second batch is never
  read.
\<close>

theorem dispatch_fault_counterexample:
  "keepAliveTimeout (fresh_worker None 12 0) = 10 \<and> maxThreads (fresh_worker None 12 0) = 0
   \<and> map_option trace
        (run 5 (two_batches_env plain_batch [request [] [] 4] always_returns)
           (fresh_worker None 12 0)) =
      Some [ReadSetting ''HttpKeepAliveTimeout'', CounterInc, NewHttpSocket,
            SetCurrentDatabaseContext True, SocketRead 3, Log SystemDebug (RequestCount 3),
            Execute (request ''keep-alive'' [] 1) 7, Execute (request [] [] 2) 7,
            Execute (request [] [] 3) 7,
            WaitForReadyRead 5, SocketRead 1, Log SystemDebug (RequestCount 1),
            Execute (request [] [] 4) 7,
            WaitForReadyRead 5, SocketClose, LoopProcessEvents False, Release,
            SetCurrentDatabaseContext False, DeleteLater, CounterDec]
   \<and> map_option trace
        (run 5 (two_batches_env plain_batch [request [] [] 4] (fails_on 1 (ClientErrorException 400)))
           (fresh_worker None 12 0)) =
      Some [ReadSetting ''HttpKeepAliveTimeout'', CounterInc, NewHttpSocket,
            SetCurrentDatabaseContext True, SocketRead 3, Log SystemDebug (RequestCount 3),
            Execute (request ''keep-alive'' [] 1) 7,
            Log AppWarn (CaughtClientError 400), Log SystemWarn (CaughtClientError 400),
            WriteResponse 400 [], SocketClose, LoopProcessEvents False, Release,
            SetCurrentDatabaseContext False, DeleteLater, CounterDec]
   \<and> WaitForReadyRead 5 \<notin> set (trace (the
        (run 5 (two_batches_env plain_batch [request [] [] 4] (fails_on 1 (ClientErrorException 400)))
           (fresh_worker None 12 0))))"
  by code_simp

subsection \<open>readRequest with the timeout at zero\<close>

lemma readRequest_loop_zero:
  assumes "\<And>st d. P (Log SystemWarn (InvalidDescriptor st d))" and "P (WaitForReadyRead 200)"
  shows "keepAliveTimeout s = 0 \<Longrightarrow> readRequest_loop n env s = Some s' \<Longrightarrow>
    adds P s s' \<and> tick s \<le> tick s'
    \<and> (canReadRequest (sock_history env (tick s'))
        \<or> sock_state (sock_history env (tick s')) \<noteq> ConnectedState)
    \<and> (\<forall>t. tick s \<le> t \<and> t < tick s' \<longrightarrow>
          \<not> canReadRequest (sock_history env t)
          \<and> sock_state (sock_history env t) = ConnectedState)"
proof (induction n arbitrary: s)
  case 0
  then show ?case by simp
next
  case (Suc n)
  let ?ob = "sock_history env (tick s)"
  let ?next = "(log (WaitForReadyRead 200) s)\<lparr>tick := Suc (tick s)\<rparr>"
  show ?case
  proof (cases "canReadRequest ?ob")
    case True
    with Suc.prems have "s' = s" by (simp add: Let_def)
    with True show ?thesis by (auto simp: adds_refl)
  next
    case nr: False
    show ?thesis
    proof (cases "sock_state ?ob = ConnectedState")
      case False
      with nr Suc.prems have
        "s' = log (Log SystemWarn (InvalidDescriptor (sock_state ?ob) (socketDescriptor s))) s"
        by (simp add: Let_def)
      moreover have "adds P s
          (log (Log SystemWarn (InvalidDescriptor (sock_state ?ob) (socketDescriptor s))) s)"
        by (simp add: adds_log assms)
      moreover have "tick (log (Log SystemWarn (InvalidDescriptor (sock_state ?ob) (socketDescriptor s))) s)
          = tick s"
        by (simp add: log_def)
      ultimately show ?thesis using False by auto
    next
      case True
      with nr Suc.prems have rec: "readRequest_loop n env ?next = Some s'"
        by (simp add: Let_def)
      have k: "keepAliveTimeout ?next = 0" using Suc.prems(1) by (simp add: log_def)
      note ih = Suc.IH [OF k rec]
      have "adds P s ?next" by (simp add: adds_tick adds_log assms)
      with ih have a: "adds P s s'" by (blast intro: adds_trans)
      from ih have le: "Suc (tick s) \<le> tick s'" by (simp add: log_def)
      from ih have ex: "canReadRequest (sock_history env (tick s'))
          \<or> sock_state (sock_history env (tick s')) \<noteq> ConnectedState" by blast
      have "\<not> canReadRequest (sock_history env t)
          \<and> sock_state (sock_history env t) = ConnectedState"
        if "tick s \<le> t" "t < tick s'" for t
      proof (cases "t = tick s")
        case True
        with nr \<open>sock_state ?ob = ConnectedState\<close> show ?thesis by simp
      next
        case False
        with that have "tick ?next \<le> t" by (simp add: log_def)
        with ih that show ?thesis by blast
      qed
      with a le ex show ?thesis by auto
    qed
  qed
qed

lemma readRequest_loop_zero_diverges:
  "keepAliveTimeout s = 0 \<Longrightarrow>
   (\<forall>t\<ge>tick s. \<not> canReadRequest (sock_history env t)
                 \<and> sock_state (sock_history env t) = ConnectedState) \<Longrightarrow>
   readRequest_loop n env s = None"
proof (induction n arbitrary: s)
  case 0
  show ?case by simp
next
  case (Suc n)
  let ?next = "(log (WaitForReadyRead 200) s)\<lparr>tick := Suc (tick s)\<rparr>"
  have "readRequest_loop n env ?next = None"
    using Suc.prems by (intro Suc.IH) (auto simp: log_def)
  with Suc.prems show ?case by (simp add: Let_def)
qed

lemma readRequest_loop_zero_exits:
  "keepAliveTimeout s = 0 \<Longrightarrow>
   (\<forall>t. tick s \<le> t \<and> t < tick s + k \<longrightarrow>
        \<not> canReadRequest (sock_history env t)
        \<and> sock_state (sock_history env t) = ConnectedState) \<Longrightarrow>
   \<not> canReadRequest (sock_history env (tick s + k)) \<Longrightarrow>
   sock_state (sock_history env (tick s + k)) \<noteq> ConnectedState \<Longrightarrow>
   \<exists>s'. readRequest_loop (Suc k) env s = Some s' \<and> tick s' = tick s + k"
proof (induction k arbitrary: s)
  case 0
  then show ?case by (simp add: Let_def log_def)
next
  case (Suc k)
  let ?next = "(log (WaitForReadyRead 200) s)\<lparr>tick := Suc (tick s)\<rparr>"
  from Suc.prems(2) have here: "\<not> canReadRequest (sock_history env (tick s))"
    "sock_state (sock_history env (tick s)) = ConnectedState"
    by auto
  have "\<exists>s'. readRequest_loop (Suc k) env ?next = Some s' \<and> tick s' = tick ?next + k"
    using Suc.prems by (intro Suc.IH) (auto simp: log_def)
  then obtain s' where "readRequest_loop (Suc k) env ?next = Some s'" "tick s' = tick s + Suc k"
    by (auto simp: log_def)
  with here Suc.prems(1) show ?case
    by (subst readRequest_loop.simps) (simp add: Let_def)
qed

text \<open>
  C10. With the keep-alive timeout at 0, the polling loop of readRequest logs no read
  timeout. When it exits, a request can be read or the socket is no longer connected, and
  at every earlier poll the socket was connected with nothing to read. On a socket that
  stays connected and never has a request to read the loop does not exit, however long
  the socket has been idle; and it does exit, after \<open>k\<close> waits, when at poll \<open>k\<close> the socket
  is found not connected.
\<close>

theorem read_never_times_out_when_timeout_zero:
  assumes "keepAliveTimeout s = 0"
  shows "(readRequest_loop n env s = Some s' \<longrightarrow>
            (canReadRequest (sock_history env (tick s'))
             \<or> sock_state (sock_history env (tick s')) \<noteq> ConnectedState)
            \<and> (\<forall>t. tick s \<le> t \<and> t < tick s' \<longrightarrow>
                  \<not> canReadRequest (sock_history env t)
                  \<and> sock_state (sock_history env t) = ConnectedState)
            \<and> (\<forall>k d. Log SystemWarn (ReadTimedOut k d) \<notin> set (since s s')))
    \<and> ((\<forall>t\<ge>tick s. \<not> canReadRequest (sock_history env t)
                      \<and> sock_state (sock_history env t) = ConnectedState) \<longrightarrow>
          readRequest_loop n env s = None)
    \<and> ((\<forall>t. tick s \<le> t \<and> t < tick s + k \<longrightarrow>
              \<not> canReadRequest (sock_history env t)
              \<and> sock_state (sock_history env t) = ConnectedState)
        \<and> \<not> canReadRequest (sock_history env (tick s + k))
        \<and> sock_state (sock_history env (tick s + k)) \<noteq> ConnectedState \<longrightarrow>
          (\<exists>s''. readRequest_loop (Suc k) env s = Some s'' \<and> tick s'' = tick s + k))"
proof (intro conjI impI)
  assume r: "readRequest_loop n env s = Some s'"
  let ?P = "\<lambda>e. \<forall>k d. e \<noteq> Log SystemWarn (ReadTimedOut k d)"
  have z: "adds ?P s s' \<and> tick s \<le> tick s'
    \<and> (canReadRequest (sock_history env (tick s'))
        \<or> sock_state (sock_history env (tick s')) \<noteq> ConnectedState)
    \<and> (\<forall>t. tick s \<le> t \<and> t < tick s' \<longrightarrow>
          \<not> canReadRequest (sock_history env t)
          \<and> sock_state (sock_history env t) = ConnectedState)"
    by (rule readRequest_loop_zero [of ?P, OF _ _ assms r]) simp_all
  from z show "canReadRequest (sock_history env (tick s'))
             \<or> sock_state (sock_history env (tick s')) \<noteq> ConnectedState" by blast
  from z show "\<forall>t. tick s \<le> t \<and> t < tick s' \<longrightarrow>
                  \<not> canReadRequest (sock_history env t)
                  \<and> sock_state (sock_history env t) = ConnectedState" by blast
  from z have "list_all ?P (since s s')" by (simp add: adds_def)
  then show "\<forall>k d. Log SystemWarn (ReadTimedOut k d) \<notin> set (since s s')"
    by (auto simp: list_all_iff)
next
  assume "\<forall>t\<ge>tick s. \<not> canReadRequest (sock_history env t)
                      \<and> sock_state (sock_history env t) = ConnectedState"
  with assms show "readRequest_loop n env s = None" by (rule readRequest_loop_zero_diverges)
next
  assume "(\<forall>t. tick s \<le> t \<and> t < tick s + k \<longrightarrow>
              \<not> canReadRequest (sock_history env t)
              \<and> sock_state (sock_history env t) = ConnectedState)
        \<and> \<not> canReadRequest (sock_history env (tick s + k))
        \<and> sock_state (sock_history env (tick s + k)) \<noteq> ConnectedState"
  with assms show "\<exists>s''. readRequest_loop (Suc k) env s = Some s'' \<and> tick s'' = tick s + k"
    by (intro readRequest_loop_zero_exits) auto
qed

theorem read_never_times_out_when_timeout_zero_witness:
  "keepAliveTimeout (run_acquired (run_start (fresh_worker (Some ''0'') 12 0))) = 0
   \<and> idleTime (sock_history (silent_env (idle_until 3)) 0) = 3600
   \<and> map_option (\<lambda>s'. (tick s', since (run_acquired (run_start (fresh_worker (Some ''0'') 12 0))) s'))
        (readRequest_loop 10 (silent_env (idle_until 3))
           (run_acquired (run_start (fresh_worker (Some ''0'') 12 0)))) =
      Some (3, [WaitForReadyRead 200, WaitForReadyRead 200, WaitForReadyRead 200,
                Log SystemWarn (InvalidDescriptor UnconnectedState 12)])
   \<and> sock_state (sock_history (silent_env (idle_until 3)) 3) \<noteq> ConnectedState
   \<and> (\<forall>t. \<not> canReadRequest (sock_history (silent_env idle_for_ever) t)
           \<and> sock_state (sock_history (silent_env idle_for_ever) t) = ConnectedState)
   \<and> readRequest_loop 50 (silent_env idle_for_ever)
        (run_acquired (run_start (fresh_worker (Some ''0'') 12 0))) = None"
proof -
  let ?s = "run_acquired (run_start (fresh_worker (Some ''0'') 12 0))"
  have k: "keepAliveTimeout ?s = 0"
    by (simp add: run_acquired_def run_start_def Counter_ctor_def log_def fresh_worker_timeout)
  have i: "idleTime (sock_history (silent_env (idle_until 3)) 0) = 3600"
    by (simp add: silent_env_def idle_until_def)
  have a: "map_option (\<lambda>s'. (tick s', since ?s s'))
        (readRequest_loop 10 (silent_env (idle_until 3)) ?s) =
      Some (3, [WaitForReadyRead 200, WaitForReadyRead 200, WaitForReadyRead 200,
                Log SystemWarn (InvalidDescriptor UnconnectedState 12)])"
    by code_simp
  have g: "sock_state (sock_history (silent_env (idle_until 3)) 3) \<noteq> ConnectedState"
    by (simp add: silent_env_def idle_until_def)
  have f: "\<forall>t. \<not> canReadRequest (sock_history (silent_env idle_for_ever) t)
           \<and> sock_state (sock_history (silent_env idle_for_ever) t) = ConnectedState"
    by (simp add: silent_env_def idle_for_ever_def)
  have n: "readRequest_loop 50 (silent_env idle_for_ever) ?s = None"
    using read_never_times_out_when_timeout_zero [OF k, of 50 "silent_env idle_for_ever"] f
    by blast
  from k i a g f n show ?thesis by blast
qed

subsection \<open>The keep-alive decision\<close>

lemma since_append: "trace s' = trace s @ es \<Longrightarrow> since s s' = es"
  by (simp add: since_def)

lemma readRequest_tail:
  assumes "\<And>m. P (Log SystemWarn m)" and "P (WaitForReadyRead 200)"
  shows "readRequest n env s = Some (reqs, s1) \<Longrightarrow>
    \<exists>sl e. adds P s sl \<and> trace s1 = trace sl @ [e] \<and> e \<noteq> CounterInc \<and> e \<noteq> CounterDec
      \<and> e \<noteq> WaitForReadyRead 5
      \<and> threadCounter s1 = threadCounter sl \<and> keepAliveTimeout s1 = keepAliveTimeout sl
      \<and> maxThreads s1 = maxThreads sl"
proof -
  assume r: "readRequest n env s = Some (reqs, s1)"
  then obtain sl where l: "readRequest_loop n env s = Some sl"
    by (auto simp: readRequest_def split: option.splits)
  then have a: "adds P s sl" by (rule readRequest_loop_adds [OF assms])
  from r l have "s1 = log SocketAbort sl
      \<or> s1 = (log (SocketRead (length reqs)) sl)\<lparr>tick := Suc (tick sl)\<rparr>"
    by (auto simp: readRequest_def Let_def split: if_splits)
  then show ?thesis using a by (auto simp: log_def)
qed

lemma try_loop_once:
  assumes c: "keepAliveTimeout s = 0 \<or> (threadCount s \<ge> maxThreads s \<and> maxThreads s > 0)"
    and run: "try_loop n env s = Some (l, s')"
  shows "adds quiet s s' \<and> length (filter is_read (since s s')) \<le> 1"
proof (cases n)
  case 0
  with run show ?thesis by simp
next
  case (Suc m)
  let ?P = "\<lambda>e. quiet e \<and> \<not> is_read e"
  have ev: "\<And>l m. ?P (Log l m)" "?P (WaitForReadyRead 200)"
    "\<And>r i. ?P (Execute r i)" "\<And>d. ?P (DuplicateSocket d)" "\<And>d. ?P (NewWebSocket d)"
    "?P ConnectDeleteLater" "?P MoveToThread" "\<And>i. ?P (FindSession i)"
    "\<And>x. ?P (StartWorkerForOpening x)"
    by (simp_all add: quiet_def is_read_def)
  have run': "try_loop (Suc m) env s = Some (l, s')" using run unfolding Suc .
  from run' obtain reqs s1 where rd: "readRequest m env s = Some (reqs, s1)"
    by (cases "readRequest m env s") auto
  from readRequest_tail [of ?P, OF ev(1,2) rd] obtain sl e where
    a0: "adds ?P s sl" and t1: "trace s1 = trace sl @ [e]"
    and e: "e \<noteq> CounterInc" "e \<noteq> CounterDec" "e \<noteq> WaitForReadyRead 5"
    and f1: "threadCounter s1 = threadCounter sl" "keepAliveTimeout s1 = keepAliveTimeout sl"
      "maxThreads s1 = maxThreads sl"
    by blast
  let ?s2 = "log (Log SystemDebug (RequestCount (length reqs))) s1"
  have a2: "adds ?P s1 ?s2" by (simp add: adds_log ev)
  have rest: "adds ?P s1 s'"
  proof (cases reqs)
    case Nil
    with run' rd have "s' = ?s2" by simp
    with a2 show ?thesis by simp
  next
    case (Cons req0 rest)
    note batch = try_loop_batch [OF rd [unfolded Cons]]
    show ?thesis
    proof (cases "contains (toLower (connection_hdr req0)) ''upgrade''")
      case up: True
      let ?s3 = "log (Log SystemDebug (UpgradeValue (toLower (upgrade_hdr req0)))) ?s2"
      have a3: "adds ?P s1 ?s3" using a2 adds_log [of ?P _ ?s2] ev(1) by (blast intro: adds_trans)
      show ?thesis
      proof (cases "toLower (upgrade_hdr req0) = ''websocket''")
        case True
        obtain ok s4 where h: "handshakeForWebSocket env req0 ?s3 = (ok, s4)"
          by (cases "handshakeForWebSocket env req0 ?s3") auto
        then have "adds ?P ?s3 s4" by (rule handshakeForWebSocket_adds [of ?P, OF ev(4-9)])
        moreover from run' up True h [unfolded Cons] have "s' = s4"
          unfolding batch by (auto simp: Let_def split: if_splits)
        ultimately show ?thesis using a3 by (blast intro: adds_trans)
      next
        case False
        with run' up have "s' = ?s3" unfolding batch Cons by (simp add: Let_def)
        with a3 show ?thesis by simp
      qed
    next
      case noup: False
      show ?thesis
      proof (cases "execute_all env (req0 # rest) ?s2")
        case (Inl fs)
        then obtain f s3 where fs: "execute_all env (req0 # rest) ?s2 = Inl (f, s3)"
          by (cases fs) auto
        then have "adds ?P ?s2 s3" by (rule execute_all_adds(2) [of ?P, OF ev(3)])
        moreover from run' have "s' = s3"
          unfolding try_loop_dispatch_fault [OF rd [unfolded Cons] noup fs [unfolded Cons]] by simp
        ultimately show ?thesis using a2 by (blast intro: adds_trans)
      next
        case (Inr s3)
        then have a3: "adds ?P ?s2 s3" by (rule execute_all_adds(1) [of ?P, OF ev(3)])
        with a2 have a13: "adds ?P s1 s3" by (rule adds_trans)
        with a0 f1 have same: "keepAliveTimeout s3 = keepAliveTimeout s"
          "threadCounter s3 = threadCounter s" "maxThreads s3 = maxThreads s"
          by (simp_all add: adds_iff)
        with c have "keepAliveTimeout s3 = 0 \<or> (threadCount s3 \<ge> maxThreads s3 \<and> maxThreads s3 > 0)"
          by (simp add: threadCount_def)
        with run' have "s' = s3"
          unfolding try_loop_dispatch_ok [OF rd [unfolded Cons] noup Inr [unfolded Cons]]
          by (auto split: if_splits)
        with a13 show ?thesis by simp
      qed
    qed
  qed
  from a0 obtain es0 where es0: "trace sl = trace s @ es0" "list_all ?P es0"
    and f0: "threadCounter sl = threadCounter s" "keepAliveTimeout sl = keepAliveTimeout s"
      "maxThreads sl = maxThreads s"
    by (auto simp: adds_iff)
  from rest obtain es2 where es2: "trace s' = trace s1 @ es2" "list_all ?P es2"
    and f2: "threadCounter s' = threadCounter s1" "keepAliveTimeout s' = keepAliveTimeout s1"
      "maxThreads s' = maxThreads s1"
    by (auto simp: adds_iff)
  have tr: "trace s' = trace s @ (es0 @ e # es2)" using es0 t1 es2 by simp
  have q: "list_all quiet (es0 @ e # es2)"
    using es0(2) es2(2) e by (auto simp: list_all_iff quiet_def)
  have "filter is_read (es0 @ e # es2) = filter is_read [e]"
    using es0(2) es2(2) by (auto simp: list_all_iff filter_empty_conv)
  then have len: "length (filter is_read (es0 @ e # es2)) \<le> 1" by simp
  have "adds quiet s s'"
    unfolding adds_iff using tr q f0 f1 f2 by auto
  with len since_append [OF tr] show ?thesis by simp
qed

lemma after_try_adds_events:
  assumes "\<And>l m. P (Log l m)" and "\<And>c h. P (WriteResponse c h)" and "P SocketClose"
    and "\<And>b. P (LoopProcessEvents b)" and "P Release" and "\<And>b. P (SetCurrentDatabaseContext b)"
    and "P DeleteLater"
  shows "adds P s (after_try l s)"
proof (cases l)
  case (Thrown f)
  then show ?thesis
    by (cases f)
       (simp_all add: receive_end_def socket_cleanup_def socket_error_def closeHttpSocket_def
          adds_iff log_def logs_def assms)
qed (simp_all add: receive_end_def socket_cleanup_def socket_error_def closeHttpSocket_def
       adds_iff log_def logs_def assms)

lemma run_once:
  assumes c: "keepAliveTimeout s0 = 0 \<or> (threadCount s0 + 1 \<ge> maxThreads s0 \<and> maxThreads s0 > 0)"
    and run: "run fuel env s0 = Some s'"
  shows "WaitForReadyRead 5 \<notin> set (since s0 s') \<and> length (filter is_read (since s0 s')) \<le> 1"
proof (cases "sock_setSocketDescriptor env (socketDesc (run_start s0))")
  case False
  with run have "s' = Counter_dtor (socket_error (run_failed env (run_start s0)))"
    by (simp add: run_def Let_def)
  then have "trace s' = trace s0 @
      [CounterInc, NewHttpSocket, Log SystemError (FailedSetSocketDescriptor (socketDesc s0)),
       EmitError (sock_error (sock_history env (tick s0))), TfClose (socketDesc s0),
       Release, SetCurrentDatabaseContext False, DeleteLater, CounterDec]"
    by (simp add: Counter_dtor_def Counter_ctor_def socket_error_def run_failed_def run_start_def
        log_def logs_def)
  from since_append [OF this] show ?thesis by (simp add: is_read_def)
next
  case True
  let ?P = "\<lambda>e. quiet e \<and> \<not> is_read e"
  let ?s = "run_acquired (run_start s0)"
  from run True obtain l s4 where t: "try_loop fuel env ?s = Some (l, s4)"
    and s': "s' = Counter_dtor (after_try l s4)"
    by (cases "try_loop fuel env ?s") (auto simp: run_def Let_def)
  have "keepAliveTimeout ?s = 0 \<or> (threadCount ?s \<ge> maxThreads ?s \<and> maxThreads ?s > 0)"
    using c by (simp add: run_acquired_def run_start_def Counter_ctor_def log_def threadCount_def)
  from try_loop_once [OF this t] have a: "adds quiet ?s s4"
    and r: "length (filter is_read (since ?s s4)) \<le> 1"
    by simp_all
  have "adds ?P s4 (after_try l s4)"
    by (rule after_try_adds_events) (simp_all add: quiet_def is_read_def)
  then obtain es where es: "trace (after_try l s4) = trace s4 @ es" "list_all ?P es"
    by (auto simp: adds_iff)
  from a have t4: "trace s4 = trace ?s @ since ?s s4" and q4: "list_all quiet (since ?s s4)"
    by (simp_all add: adds_def)
  have st: "trace ?s = trace s0 @ [CounterInc, NewHttpSocket, SetCurrentDatabaseContext True]"
    by (simp add: run_acquired_def run_start_def Counter_ctor_def log_def)
  have "trace s' = trace s0 @ ([CounterInc, NewHttpSocket, SetCurrentDatabaseContext True]
      @ since ?s s4 @ es @ [CounterDec])"
    using s' es(1) t4 st by (simp add: Counter_dtor_def log_def)
  from since_append [OF this]
  have sn: "since s0 s' = [CounterInc, NewHttpSocket, SetCurrentDatabaseContext True]
      @ since ?s s4 @ es @ [CounterDec]" .
  have "filter is_read es = []" using es(2) by (auto simp: list_all_iff filter_empty_conv)
  then have "filter is_read (since s0 s') = filter is_read (since ?s s4)"
    unfolding sn by (simp add: is_read_def)
  moreover have "WaitForReadyRead 5 \<notin> set (since s0 s')"
    unfolding sn using q4 es(2) by (auto simp: list_all_iff quiet_def)
  ultimately show ?thesis using r by simp
qed

lemma dispatch_frame:
  assumes "readRequest n env s = Some (reqs, s1)"
    and "execute_all env reqs (log (Log SystemDebug (RequestCount (length reqs))) s1) = Inr s3"
  shows "keepAliveTimeout s3 = keepAliveTimeout s \<and> threadCount s3 = threadCount s
    \<and> maxThreads s3 = maxThreads s"
proof -
  let ?T = "\<lambda>e. True"
  have "adds ?T s s1" using assms(1) by (rule readRequest_adds [rotated 4]) simp_all
  moreover have "adds ?T s1 (log (Log SystemDebug (RequestCount (length reqs))) s1)"
    by (simp add: adds_log)
  moreover have "adds ?T (log (Log SystemDebug (RequestCount (length reqs))) s1) s3"
    using assms(2) by (rule execute_all_adds(1) [rotated]) simp
  ultimately have "adds ?T s s3" by (blast intro: adds_trans)
  then show ?thesis by (simp add: adds_iff threadCount_def)
qed

lemma after_break:
  "trace (after_try Break s) =
     trace s @ [SocketClose, LoopProcessEvents False, Release, SetCurrentDatabaseContext False,
                DeleteLater]"
  by (simp add: receive_end_def socket_cleanup_def socket_error_def closeHttpSocket_def
      log_def logs_def)

text \<open>
  C2. When the keep-alive timeout is 0: a cycle whose dispatches all return leaves the loop
  by break, and what follows is the close of the socket, the drain of the event queue and
  the cleanup. From a state with timeout 0 neither the loop nor run() as a whole, whenever
  they return, has entered the wait for a next request (no waitForReadyRead(5)), and at
  most one batch has been read from the socket.
\<close>

theorem timeout_zero_closes_after_batch:
  assumes "keepAliveTimeout s = 0"
  shows "(readRequest n env s = Some (req0 # rest, s1)
          \<and> \<not> contains (toLower (connection_hdr req0)) ''upgrade''
          \<and> execute_all env (req0 # rest)
                (log (Log SystemDebug (RequestCount (length (req0 # rest)))) s1) = Inr s3
          \<longrightarrow> try_loop (Suc n) env s = Some (Break, s3)
             \<and> trace (after_try Break s3) =
                 trace s3 @ [SocketClose, LoopProcessEvents False, Release,
                             SetCurrentDatabaseContext False, DeleteLater])
    \<and> (try_loop fuel env s = Some (l, s') \<longrightarrow>
          WaitForReadyRead 5 \<notin> set (since s s') \<and> length (filter is_read (since s s')) \<le> 1)
    \<and> (run fuel env s = Some s'' \<longrightarrow>
          WaitForReadyRead 5 \<notin> set (since s s'') \<and> length (filter is_read (since s s'')) \<le> 1)"
proof (intro conjI impI)
  assume h: "readRequest n env s = Some (req0 # rest, s1)
          \<and> \<not> contains (toLower (connection_hdr req0)) ''upgrade''
          \<and> execute_all env (req0 # rest)
                (log (Log SystemDebug (RequestCount (length (req0 # rest)))) s1) = Inr s3"
  then have "keepAliveTimeout s3 = 0"
    using dispatch_frame [of n env s "req0 # rest" s1 s3] assms by simp
  with h show "try_loop (Suc n) env s = Some (Break, s3)"
    using try_loop_dispatch_ok [of n env s req0 rest s1 s3] by simp
  show "trace (after_try Break s3) =
      trace s3 @ [SocketClose, LoopProcessEvents False, Release,
                  SetCurrentDatabaseContext False, DeleteLater]"
    by (rule after_break)
next
  assume t: "try_loop fuel env s = Some (l, s')"
  from assms have c: "keepAliveTimeout s = 0 \<or> (threadCount s \<ge> maxThreads s \<and> maxThreads s > 0)"
    by simp
  from try_loop_once [OF c t] show "WaitForReadyRead 5 \<notin> set (since s s')"
    by (auto simp: adds_def list_all_iff quiet_def)
  from try_loop_once [OF c t] show "length (filter is_read (since s s')) \<le> 1" by simp
next
  assume r: "run fuel env s = Some s''"
  from assms have c: "keepAliveTimeout s = 0 \<or> (threadCount s + 1 \<ge> maxThreads s \<and> maxThreads s > 0)"
    by simp
  from run_once [OF c r] show "WaitForReadyRead 5 \<notin> set (since s s'')"
    and "length (filter is_read (since s s'')) \<le> 1"
    by simp_all
qed

lemma zero_example_read:
  "readRequest 1 (two_batches_env plain_batch [request [] [] 4] always_returns)
      (run_acquired (run_start (fresh_worker (Some ''0'') 12 0))) =
   Some (request ''keep-alive'' [] 1 # [request [] [] 2, request [] [] 3],
         (log (SocketRead 3) (run_acquired (run_start (fresh_worker (Some ''0'') 12 0))))\<lparr>tick := 1\<rparr>)"
  by code_simp

lemma zero_example_dispatch:
  "execute_all (two_batches_env plain_batch [request [] [] 4] always_returns)
      (request ''keep-alive'' [] 1 # [request [] [] 2, request [] [] 3])
      (log (Log SystemDebug (RequestCount (length (request ''keep-alive'' [] 1 # [request [] [] 2, request [] [] 3]))))
         ((log (SocketRead 3) (run_acquired (run_start (fresh_worker (Some ''0'') 12 0))))\<lparr>tick := 1\<rparr>)) =
   Inr ((logs [SocketRead 3, Log SystemDebug (RequestCount 3),
               Execute (request ''keep-alive'' [] 1) 7, Execute (request [] [] 2) 7,
               Execute (request [] [] 3) 7]
           (run_acquired (run_start (fresh_worker (Some ''0'') 12 0))))\<lparr>tick := 1\<rparr>)"
  by code_simp

lemma zero_example_run:
  "run 5 (two_batches_env plain_batch [request [] [] 4] always_returns)
      (fresh_worker (Some ''0'') 12 0) =
   Some \<lparr>threadCounter = 0, keepAliveTimeout = 0,
     trace =
       [ReadSetting ''HttpKeepAliveTimeout'', CounterInc, NewHttpSocket,
        SetCurrentDatabaseContext True, SocketRead 3, Log SystemDebug (RequestCount 3),
        Execute (request ''keep-alive'' [] 1) 7, Execute (request [] [] 2) 7,
        Execute (request [] [] 3) 7,
        SocketClose, LoopProcessEvents False, Release,
        SetCurrentDatabaseContext False, DeleteLater, CounterDec],
     socketDesc = 0, maxThreads = 0, httpSocket = None, tick = 1\<rparr>"
  by code_simp

theorem timeout_zero_closes_after_batch_witness:
  "keepAliveTimeout (fresh_worker (Some ''0'') 12 0) = 0
   \<and> keepAliveTimeout (run_acquired (run_start (fresh_worker (Some ''0'') 12 0))) = 0
   \<and> readRequest 1 (two_batches_env plain_batch [request [] [] 4] always_returns)
        (run_acquired (run_start (fresh_worker (Some ''0'') 12 0))) =
      Some (plain_batch,
            (log (SocketRead 3) (run_acquired (run_start (fresh_worker (Some ''0'') 12 0))))\<lparr>tick := 1\<rparr>)
   \<and> \<not> contains (toLower (connection_hdr (request ''keep-alive'' [] 1))) ''upgrade''
   \<and> map_option fst (try_loop 2 (two_batches_env plain_batch [request [] [] 4] always_returns)
        (run_acquired (run_start (fresh_worker (Some ''0'') 12 0)))) = Some Break
   \<and> map_option trace (run 5 (two_batches_env plain_batch [request [] [] 4] always_returns)
        (fresh_worker (Some ''0'') 12 0)) =
      Some [ReadSetting ''HttpKeepAliveTimeout'', CounterInc, NewHttpSocket,
            SetCurrentDatabaseContext True, SocketRead 3, Log SystemDebug (RequestCount 3),
            Execute (request ''keep-alive'' [] 1) 7, Execute (request [] [] 2) 7,
            Execute (request [] [] 3) 7,
            SocketClose, LoopProcessEvents False, Release,
            SetCurrentDatabaseContext False, DeleteLater, CounterDec]
   \<and> WaitForReadyRead 5 \<notin> set (since (fresh_worker (Some ''0'') 12 0)
        (the (run 5 (two_batches_env plain_batch [request [] [] 4] always_returns)
           (fresh_worker (Some ''0'') 12 0))))"
proof -
  let ?w = "fresh_worker (Some ''0'') 12 0"
  let ?s = "run_acquired (run_start ?w)"
  let ?env = "two_batches_env plain_batch [request [] [] 4] always_returns"
  let ?s1 = "(log (SocketRead 3) ?s)\<lparr>tick := 1\<rparr>"
  let ?s3 = "(logs [SocketRead 3, Log SystemDebug (RequestCount 3),
               Execute (request ''keep-alive'' [] 1) 7, Execute (request [] [] 2) 7,
               Execute (request [] [] 3) 7] ?s)\<lparr>tick := 1\<rparr>"
  let ?end = "\<lparr>threadCounter = 0, keepAliveTimeout = 0,
     trace =
       [ReadSetting ''HttpKeepAliveTimeout'', CounterInc, NewHttpSocket,
        SetCurrentDatabaseContext True, SocketRead 3, Log SystemDebug (RequestCount 3),
        Execute (request ''keep-alive'' [] 1) 7, Execute (request [] [] 2) 7,
        Execute (request [] [] 3) 7,
        SocketClose, LoopProcessEvents False, Release,
        SetCurrentDatabaseContext False, DeleteLater, CounterDec],
     socketDesc = 0, maxThreads = 0, httpSocket = None, tick = 1\<rparr>"
  have kw: "keepAliveTimeout ?w = 0" by (simp add: fresh_worker_timeout)
  have ks: "keepAliveTimeout ?s = 0"
    by (simp add: run_acquired_def run_start_def Counter_ctor_def log_def fresh_worker_timeout)
  have pb: "plain_batch = request ''keep-alive'' [] 1 # [request [] [] 2, request [] [] 3]"
    by (simp add: plain_batch_def)
  have "try_loop (Suc 1) ?env ?s = Some (Break, ?s3)"
    using timeout_zero_closes_after_batch [OF ks, where n = 1 and env = ?env
          and ?req0.0 = "request ''keep-alive'' [] 1"
          and rest = "[request [] [] 2, request [] [] 3]" and ?s1.0 = ?s1 and ?s3.0 = ?s3]
      zero_example_read zero_example_dispatch plain_batch_not_upgrade
    by blast
  then have "try_loop 2 ?env ?s = Some (Break, ?s3)"
    by (simp only: Suc_1)
  then have b: "map_option fst (try_loop 2 ?env ?s) = Some Break"
    by (simp only: option.map fst_conv)
  have "WaitForReadyRead 5 \<notin> set (since ?w ?end)"
    using timeout_zero_closes_after_batch [OF kw, where fuel = 5 and env = ?env and s'' = ?end]
      zero_example_run
    by blast
  then have n: "WaitForReadyRead 5 \<notin> set (since ?w (the (run 5 ?env ?w)))"
    by (simp only: zero_example_run option.sel not_False_eq_True)
  have t: "map_option trace (run 5 ?env ?w) =
      Some [ReadSetting ''HttpKeepAliveTimeout'', CounterInc, NewHttpSocket,
            SetCurrentDatabaseContext True, SocketRead 3, Log SystemDebug (RequestCount 3),
            Execute (request ''keep-alive'' [] 1) 7, Execute (request [] [] 2) 7,
            Execute (request [] [] 3) 7,
            SocketClose, LoopProcessEvents False, Release,
            SetCurrentDatabaseContext False, DeleteLater, CounterDec]"
    by (simp add: zero_example_run)
  have r: "readRequest 1 ?env ?s = Some (plain_batch, ?s1)"
    using zero_example_read by (simp only: pb)
  from kw ks r plain_batch_not_upgrade b t n show ?thesis by blast
qed










end
